theory Spec2Isabelle
  imports Main "HOL-Library.Word" "HOL-Library.Sublist"
begin

section \<open>Go strings and the library functions the parser calls\<close>

text \<open>
  A Go string is a sequence of bytes, here \<^typ>\<open>string\<close> (a list of 8-bit characters).
  The parser calls \<^verbatim>\<open>strings.TrimSpace\<close>, \<^verbatim>\<open>strings.Fields\<close>,
  \<^verbatim>\<open>strings.Contains\<close>, \<^verbatim>\<open>strings.TrimSuffix\<close>, \<^verbatim>\<open>strconv.Atoi\<close>
  and \<^verbatim>\<open>regexp.MatchString\<close>; each is modelled by what the Go library computes.

  White space, for \<^verbatim>\<open>TrimSpace\<close> and \<^verbatim>\<open>Fields\<close>, is \<^verbatim>\<open>unicode.IsSpace\<close> on the
  runes of the UTF-8 text. The table lists the UTF-8 encoding of every such rune:
  the six ASCII ones, U+0085, U+00A0, U+1680, U+2000 to U+200A, U+2028, U+2029, U+202F,
  U+205F and U+3000. Each encoding starts with a byte that is never a continuation
  byte, so a position where one of them starts is always a rune boundary of Go's decoder,
  and a byte that starts none of them belongs to a rune that is not white space.
\<close>

definition spaceRunes :: "string list" where
  "spaceRunes =
    [[CHR 0x09], [CHR 0x0A], [CHR 0x0B], [CHR 0x0C], [CHR 0x0D], [CHR 0x20],
     [CHR 0xC2, CHR 0x85], [CHR 0xC2, CHR 0xA0],
     [CHR 0xE1, CHR 0x9A, CHR 0x80],
     [CHR 0xE2, CHR 0x80, CHR 0x80], [CHR 0xE2, CHR 0x80, CHR 0x81],
     [CHR 0xE2, CHR 0x80, CHR 0x82], [CHR 0xE2, CHR 0x80, CHR 0x83],
     [CHR 0xE2, CHR 0x80, CHR 0x84], [CHR 0xE2, CHR 0x80, CHR 0x85],
     [CHR 0xE2, CHR 0x80, CHR 0x86], [CHR 0xE2, CHR 0x80, CHR 0x87],
     [CHR 0xE2, CHR 0x80, CHR 0x88], [CHR 0xE2, CHR 0x80, CHR 0x89],
     [CHR 0xE2, CHR 0x80, CHR 0x8A],
     [CHR 0xE2, CHR 0x80, CHR 0xA8], [CHR 0xE2, CHR 0x80, CHR 0xA9],
     [CHR 0xE2, CHR 0x80, CHR 0xAF],
     [CHR 0xE2, CHR 0x81, CHR 0x9F],
     [CHR 0xE3, CHR 0x80, CHR 0x80]]"

definition leadingSpace :: "string \<Rightarrow> string option" where
  "leadingSpace s = find (\<lambda>w. prefix w s) spaceRunes"

definition trailingSpace :: "string \<Rightarrow> string option" where
  "trailingSpace s = find (\<lambda>w. suffix w s) spaceRunes"

lemma spaceRunes_nonempty: "w \<in> set spaceRunes \<Longrightarrow> 0 < length w"
  by (auto simp: spaceRunes_def)

lemma leadingSpace_Some:
  "leadingSpace s = Some w \<Longrightarrow> w \<in> set spaceRunes \<and> prefix w s"
  unfolding leadingSpace_def by (auto simp: find_Some_iff)

lemma trailingSpace_Some:
  "trailingSpace s = Some w \<Longrightarrow> w \<in> set spaceRunes \<and> suffix w s"
  unfolding trailingSpace_def by (auto simp: find_Some_iff)

lemma leadingSpace_shorter:
  assumes "leadingSpace s = Some w"
  shows "length (drop (length w) s) < length s"
proof -
  from leadingSpace_Some [OF assms] have "0 < length w" and "prefix w s"
    by (auto dest: spaceRunes_nonempty)
  then have "length w \<le> length s" by (auto dest: prefix_length_le)
  with \<open>0 < length w\<close> show ?thesis unfolding length_drop by arith
qed

lemma trailingSpace_shorter:
  assumes "trailingSpace s = Some w"
  shows "length (take (length s - length w) s) < length s"
proof -
  from trailingSpace_Some [OF assms] have "0 < length w" and "suffix w s"
    by (auto dest: spaceRunes_nonempty)
  then have "length w \<le> length s" by (auto dest: suffix_length_le)
  with \<open>0 < length w\<close> show ?thesis unfolding length_take by arith
qed

function trimLeft :: "string \<Rightarrow> string" where
  "trimLeft s =
     (case leadingSpace s of
        None \<Rightarrow> s
      | Some w \<Rightarrow> trimLeft (drop (length w) s))"
  by pat_completeness auto
termination
  by (relation "measure length") (auto dest: leadingSpace_shorter)

function trimRight :: "string \<Rightarrow> string" where
  "trimRight s =
     (case trailingSpace s of
        None \<Rightarrow> s
      | Some w \<Rightarrow> trimRight (take (length s - length w) s))"
  by pat_completeness auto
termination
  by (relation "measure length") (auto dest: trailingSpace_shorter)

declare trimLeft.simps [simp del] trimRight.simps [simp del]

definition TrimSpace :: "string \<Rightarrow> string" where
  "TrimSpace s = trimRight (trimLeft s)"

text \<open>
  \<^verbatim>\<open>strings.Fields\<close>: the maximal runs of runes that are not white space, in order.
  \<open>cur\<close> is the field being read.
\<close>

function fieldsFrom :: "string \<Rightarrow> string \<Rightarrow> string list" where
  "fieldsFrom cur [] = (if cur = [] then [] else [cur])"
| "fieldsFrom cur (c # cs) =
     (case leadingSpace (c # cs) of
        None \<Rightarrow> fieldsFrom (cur @ [c]) cs
      | Some w \<Rightarrow> (if cur = [] then [] else [cur]) @ fieldsFrom [] (drop (length w) (c # cs)))"
  by pat_completeness auto
termination
  by (relation "measure (\<lambda>(cur, s). length s)") (auto dest: leadingSpace_shorter)

definition Fields :: "string \<Rightarrow> string list" where
  "Fields s = fieldsFrom [] s"

definition Contains :: "string \<Rightarrow> string \<Rightarrow> bool" where
  "Contains s substr = sublist substr s"

definition TrimSuffix :: "string \<Rightarrow> string \<Rightarrow> string" where
  "TrimSuffix s suf = (if suffix suf s then take (length s - length suf) s else s)"

subsection \<open>Regular expressions\<close>

text \<open>
  Both patterns of the parser start with \<^verbatim>\<open>^\<close> and have no end anchor, so
  \<^verbatim>\<open>MatchString\<close> holds when some prefix of the text is in the language of the
  rest of the pattern. The language is computed with derivatives. In Go's syntax
  \<^verbatim>\<open>\s\<close> is the ASCII class of tab, newline, form feed, carriage return and space,
  and \<^verbatim>\<open>\d\<close> is the class of the ASCII digits.
\<close>

datatype regex =
    NoMatch
  | EmptyMatch
  | CharClass "char list"
  | Concat regex regex
  | Alternate regex regex
  | Star regex

definition Plus :: "regex \<Rightarrow> regex" where
  "Plus r = Concat r (Star r)"

fun nullable :: "regex \<Rightarrow> bool" where
  "nullable NoMatch = False"
| "nullable EmptyMatch = True"
| "nullable (CharClass cs) = False"
| "nullable (Concat r s) = (nullable r \<and> nullable s)"
| "nullable (Alternate r s) = (nullable r \<or> nullable s)"
| "nullable (Star r) = True"

fun deriv :: "char \<Rightarrow> regex \<Rightarrow> regex" where
  "deriv c NoMatch = NoMatch"
| "deriv c EmptyMatch = NoMatch"
| "deriv c (CharClass cs) = (if c \<in> set cs then EmptyMatch else NoMatch)"
| "deriv c (Concat r s) =
     (if nullable r then Alternate (Concat (deriv c r) s) (deriv c s)
      else Concat (deriv c r) s)"
| "deriv c (Alternate r s) = Alternate (deriv c r) (deriv c s)"
| "deriv c (Star r) = Concat (deriv c r) (Star r)"

fun matchPrefix :: "regex \<Rightarrow> string \<Rightarrow> bool" where
  "matchPrefix r [] = nullable r"
| "matchPrefix r (c # cs) = (if nullable r then True else matchPrefix (deriv c r) cs)"

definition perlSpace :: regex where
  "perlSpace = CharClass [CHR 0x09, CHR 0x0A, CHR 0x0C, CHR 0x0D, CHR 0x20]"

definition perlDigit :: regex where
  "perlDigit = CharClass ''0123456789''"

definition MatchString :: "regex \<Rightarrow> string \<Rightarrow> bool" where
  "MatchString re s = matchPrefix re s"

subsection \<open>strconv.Atoi\<close>

text \<open>
  \<^verbatim>\<open>Atoi\<close> is \<^verbatim>\<open>ParseInt(s, 10, 0)\<close>: an optional sign, then one or more decimal
  digits and nothing else. The digits are read left to right into an unsigned 64-bit
  accumulator; a byte that is not a digit is a syntax error, an accumulator above
  \<open>2 ^ 64 - 1 = 18446744073709551615\<close> a range error, whichever comes first. The signed
  value must fit Go's \<^verbatim>\<open>int\<close>, taken as 64 bits wide: at most
  \<open>2 ^ 63 - 1\<close>, and at least \<open>- 2 ^ 63 = - 9223372036854775808\<close>.
\<close>

datatype numError = ErrSyntax | ErrRange

definition isDigit :: "char \<Rightarrow> bool" where
  "isDigit c = (48 \<le> (of_char c :: int) \<and> (of_char c :: int) \<le> 57)"

definition digitVal :: "char \<Rightarrow> int" where
  "digitVal c = of_char c - 48"

fun parseUintFrom :: "int \<Rightarrow> string \<Rightarrow> numError + int" where
  "parseUintFrom n [] = Inr n"
| "parseUintFrom n (c # cs) =
     (if \<not> isDigit c then Inl ErrSyntax
      else if n * 10 + digitVal c > 18446744073709551615 then Inl ErrRange
      else parseUintFrom (n * 10 + digitVal c) cs)"

definition ParseUint :: "string \<Rightarrow> numError + int" where
  "ParseUint s = (if s = [] then Inl ErrSyntax else parseUintFrom 0 s)"

definition ParseInt :: "string \<Rightarrow> numError + int" where
  "ParseInt s0 =
     (if s0 = [] then Inl ErrSyntax
      else
        let neg = (hd s0 = CHR ''-'');
            s = (if hd s0 = CHR ''+'' \<or> hd s0 = CHR ''-'' then tl s0 else s0)
        in case ParseUint s of
             Inl ErrSyntax \<Rightarrow> Inl ErrSyntax
           | Inl ErrRange \<Rightarrow> Inl ErrRange
           | Inr un \<Rightarrow>
               if \<not> neg \<and> un \<ge> 9223372036854775808 then Inl ErrRange
               else if neg \<and> un > 9223372036854775808 then Inl ErrRange
               else Inr (if neg then - un else un))"

definition Atoi :: "string \<Rightarrow> numError + int" where
  "Atoi s = ParseInt s"

section \<open>The parser's data\<close>

type_synonym int8 = "8 word"

record BatteryStatus =
  ID :: int
  Volt :: int
  Curr :: int
  Temp :: int
  BaseState :: int8
  VoltState :: string
  CurrState :: string
  TempState :: string
  SOC :: int8
  Coulomb :: int
  BAL :: string

text \<open>
  The fields that \<^verbatim>\<open>PowerStatus\<close> shares with \<^verbatim>\<open>BatteryStatus\<close> carry the prefix
  \<open>pwr\<close>, since the field names of a record are constants of the theory.
\<close>

record PowerStatus =
  pwrID :: int
  pwrVolt :: int
  pwrCurr :: int
  pwrTemp :: int
  pwrBaseState :: int8
  pwrVoltState :: string
  pwrCurrState :: string
  pwrTempState :: string
  pwrCoulomb :: int8
  BVState :: string
  BTState :: string
  MosTemp :: string
  MTState :: string

definition baseStateMap :: "string \<rightharpoonup> int8" where
  "baseStateMap =
     map_of [(''Charge'', 0), (''Dischg'', 1), (''Idle'', 2), (''Balance'', 3), (''N/A'', - 1)]"

section \<open>Field decoders\<close>

text \<open>
  An error made by \<^verbatim>\<open>fmt.Errorf("failed to parse %s '%s': %w", ...)\<close>: the name of
  the field, the text that was given to \<^verbatim>\<open>Atoi\<close> (or, in \<^verbatim>\<open>parseInt\<close>, the text
  before trimming) and the wrapped error.
\<close>

datatype parseError = FailedToParse string string numError

definition parseSOC :: "string \<Rightarrow> parseError + int8" where
  "parseSOC s0 =
     (let s = TrimSuffix s0 ''%'' in
      case Atoi s of
        Inl err \<Rightarrow> Inl (FailedToParse ''SOC'' s err)
      | Inr n \<Rightarrow> Inr (word_of_int n))"

definition parseCoulomb :: "string \<Rightarrow> string \<Rightarrow> parseError + int" where
  "parseCoulomb s1 s2 =
     (let s = TrimSpace s1 in
      case Atoi s of
        Inl err \<Rightarrow> Inl (FailedToParse ''Coulomb'' s err)
      | Inr n \<Rightarrow> Inr n)"

definition parseBaseState :: "string \<Rightarrow> int8" where
  "parseBaseState s = (case baseStateMap s of Some val \<Rightarrow> val | None \<Rightarrow> - 1)"

definition parseInt :: "string \<Rightarrow> string \<Rightarrow> parseError + int" where
  "parseInt s fieldName =
     (case Atoi (TrimSpace s) of
        Inl err \<Rightarrow> Inl (FailedToParse fieldName s err)
      | Inr n \<Rightarrow> Inr n)"

section \<open>Log output and panics\<close>

text \<open>
  The parser writes diagnostics with \<^verbatim>\<open>log.Printf\<close> and \<^verbatim>\<open>log.Println\<close>. The
  model returns them as a list, in the order written. An entry names the record kind and
  the message (one constructor for each format string of the source) and holds the
  arguments that the call passes.
\<close>

datatype kind = BAT | PWR

datatype field = FieldID | FieldVolt | FieldCurr | FieldTemp | FieldSOC | FieldCoulomb

datatype message =
    SkippingInsufficientFields
  | ErrorParsing field
  | WarningParsing field
  | WarningNoRecords

datatype logArg = ArgInt int | ArgStr string | ArgErr parseError

datatype logEntry = Log kind message "logArg list"

text \<open>Indexing a slice out of range panics.\<close>

datatype panic = IndexOutOfRange

definition index :: "'a list \<Rightarrow> nat \<Rightarrow> panic + 'a" where
  "index xs i = (if i < length xs then Inr (xs ! i) else Inl IndexOutOfRange)"

definition bindP :: "panic + 'a \<Rightarrow> ('a \<Rightarrow> panic + 'b) \<Rightarrow> panic + 'b" where
  "bindP m f = (case m of Inl p \<Rightarrow> Inl p | Inr x \<Rightarrow> f x)"

section \<open>ParseBAT\<close>

definition dataRegexBAT :: regex where
  "dataRegexBAT =
     Concat (Star perlSpace) (Concat (Plus perlDigit) (Concat (Plus perlSpace) (Plus perlDigit)))"

definition zeroBatteryStatus :: BatteryStatus where
  "zeroBatteryStatus =
     \<lparr>ID = 0, Volt = 0, Curr = 0, Temp = 0, BaseState = 0, VoltState = [], CurrState = [],
      TempState = [], SOC = 0, Coulomb = 0, BAL = []\<rparr>"

text \<open>
  The slice \<^verbatim>\<open>fields\<close> of the source is \<open>flds\<close> here. \<open>assembleBAT\<close> is the part
  of the loop body after the check of the number of fields: the result is the record to
  append, or \<open>None\<close> after a \<^verbatim>\<open>continue\<close>, with the entries logged. An index
  out of range ends the run with a panic.
\<close>

definition assembleBAT ::
  "nat \<Rightarrow> string \<Rightarrow> string list \<Rightarrow> panic + (BatteryStatus option \<times> logEntry list)" where
  "assembleBAT lineIdx line flds =
    (let status = zeroBatteryStatus; lineNo = ArgInt (int lineIdx + 1) in
     bindP (index flds 0) (\<lambda>f0.
     case parseInt f0 ''BAT ID'' of
       Inl err \<Rightarrow> Inr (None, [Log BAT (ErrorParsing FieldID) [lineNo, ArgErr err, ArgStr line]])
     | Inr v0 \<Rightarrow>
     let status = status\<lparr>ID := v0\<rparr> in
     bindP (index flds 1) (\<lambda>f1.
     case parseInt f1 ''BAT Volt'' of
       Inl err \<Rightarrow> Inr (None, [Log BAT (ErrorParsing FieldVolt)
                                [ArgInt (ID status), lineNo, ArgErr err, ArgStr line]])
     | Inr v1 \<Rightarrow>
     let status = status\<lparr>Volt := v1\<rparr> in
     bindP (index flds 2) (\<lambda>f2.
     case parseInt f2 ''BAT Curr'' of
       Inl err \<Rightarrow> Inr (None, [Log BAT (ErrorParsing FieldCurr)
                                [ArgInt (ID status), lineNo, ArgErr err, ArgStr line]])
     | Inr v2 \<Rightarrow>
     let status = status\<lparr>Curr := v2\<rparr> in
     bindP (index flds 3) (\<lambda>f3.
     case parseInt f3 ''BAT Temp'' of
       Inl err \<Rightarrow> Inr (None, [Log BAT (ErrorParsing FieldTemp)
                                [ArgInt (ID status), lineNo, ArgErr err, ArgStr line]])
     | Inr v3 \<Rightarrow>
     let status = status\<lparr>Temp := v3\<rparr> in
     bindP (index flds 4) (\<lambda>f4.
     let status = status\<lparr>BaseState := parseBaseState f4\<rparr> in
     bindP (index flds 5) (\<lambda>f5.
     let status = status\<lparr>VoltState := f5\<rparr> in
     bindP (index flds 6) (\<lambda>f6.
     let status = status\<lparr>CurrState := f6\<rparr> in
     bindP (index flds 7) (\<lambda>f7.
     let status = status\<lparr>TempState := f7\<rparr> in
     bindP (index flds 8) (\<lambda>f8.
     let (status, out1) =
       (case parseSOC f8 of
          Inl err \<Rightarrow> (status\<lparr>SOC := - 1\<rparr>,
                       [Log BAT (WarningParsing FieldSOC)
                          [ArgInt (ID status), lineNo, ArgErr err, ArgStr line]])
        | Inr v8 \<Rightarrow> (status\<lparr>SOC := v8\<rparr>, [])) in
     bindP (index flds 9) (\<lambda>f9.
     bindP (index flds 10) (\<lambda>f10.
     let (status, out2) =
       (case parseCoulomb f9 f10 of
          Inl err \<Rightarrow> (status\<lparr>Coulomb := - 1\<rparr>,
                       [Log BAT (WarningParsing FieldCoulomb)
                          [ArgInt (ID status), lineNo, ArgErr err]])
        | Inr v9 \<Rightarrow> (status\<lparr>Coulomb := v9\<rparr>, [])) in
     bindP (index flds 11) (\<lambda>f11.
     let status = status\<lparr>BAL := f11\<rparr> in
     Inr (Some status, out1 @ out2))))))))))))))"

text \<open>The body of the loop for the line at index \<open>lineIdx\<close>.\<close>

definition lineBAT ::
  "nat \<Rightarrow> string \<Rightarrow> panic + (BatteryStatus option \<times> logEntry list)" where
  "lineBAT lineIdx line0 =
    (let line = TrimSpace line0 in
     if \<not> MatchString dataRegexBAT line \<or> line = [] then Inr (None, [])
     else
       let flds = Fields line in
       if length flds < 12 then
         Inr (None, [Log BAT SkippingInsufficientFields
                       [ArgInt (int lineIdx + 1), ArgInt (int (length flds)), ArgStr line]])
       else assembleBAT lineIdx line flds)"

text \<open>
  The loop over the lines from index \<open>lineIdx\<close> on, given the records appended and the
  entries logged so far.
\<close>

fun loopBAT ::
  "nat \<Rightarrow> string list \<Rightarrow> BatteryStatus list \<Rightarrow> logEntry list
     \<Rightarrow> panic + (BatteryStatus list \<times> logEntry list)" where
  "loopBAT lineIdx [] results out = Inr (results, out)"
| "loopBAT lineIdx (line # rest) results out =
     (case lineBAT lineIdx line of
        Inl p \<Rightarrow> Inl p
      | Inr (None, es) \<Rightarrow> loopBAT (Suc lineIdx) rest results (out @ es)
      | Inr (Some status, es) \<Rightarrow> loopBAT (Suc lineIdx) rest (results @ [status]) (out @ es))"

definition foundDataLikeLineBAT :: "string list \<Rightarrow> bool" where
  "foundDataLikeLineBAT lines = list_ex (\<lambda>line. MatchString dataRegexBAT (TrimSpace line)) lines"

text \<open>
  The value returned is the pair of the records and the error (\<open>None\<close> is \<^verbatim>\<open>nil\<close>),
  together with the log written.
\<close>

definition ParseBAT ::
  "string list \<Rightarrow> panic + ((BatteryStatus list \<times> parseError option) \<times> logEntry list)" where
  "ParseBAT lines =
    (case loopBAT 0 lines [] [] of
       Inl p \<Rightarrow> Inl p
     | Inr (results, out) \<Rightarrow>
         let out =
           (if length results = 0 \<and> length lines > 0 then
              (if foundDataLikeLineBAT lines then out @ [Log BAT WarningNoRecords []] else out)
            else out)
         in Inr ((results, None), out))"

section \<open>ParsePWR\<close>

definition dataRegexPWR :: regex where
  "dataRegexPWR = Concat (Star perlSpace) (Concat (Plus perlDigit) (Plus perlSpace))"

definition zeroPowerStatus :: PowerStatus where
  "zeroPowerStatus =
     \<lparr>pwrID = 0, pwrVolt = 0, pwrCurr = 0, pwrTemp = 0, pwrBaseState = 0, pwrVoltState = [],
      pwrCurrState = [], pwrTempState = [], pwrCoulomb = 0, BVState = [], BTState = [],
      MosTemp = [], MTState = []\<rparr>"

definition assemblePWR ::
  "nat \<Rightarrow> string \<Rightarrow> string list \<Rightarrow> panic + (PowerStatus option \<times> logEntry list)" where
  "assemblePWR lineIdx line flds =
    (let status = zeroPowerStatus; lineNo = ArgInt (int lineIdx + 1) in
     bindP (index flds 0) (\<lambda>f0.
     case parseInt f0 ''PWR ID'' of
       Inl err \<Rightarrow> Inr (None, [Log PWR (ErrorParsing FieldID) [lineNo, ArgErr err, ArgStr line]])
     | Inr v0 \<Rightarrow>
     let status = status\<lparr>pwrID := v0\<rparr> in
     bindP (index flds 1) (\<lambda>f1.
     case parseInt f1 ''PWR Volt'' of
       Inl err \<Rightarrow> Inr (None, [Log PWR (ErrorParsing FieldVolt)
                                [ArgInt (pwrID status), lineNo, ArgErr err, ArgStr line]])
     | Inr v1 \<Rightarrow>
     let status = status\<lparr>pwrVolt := v1\<rparr> in
     bindP (index flds 2) (\<lambda>f2.
     case parseInt f2 ''PWR Curr'' of
       Inl err \<Rightarrow> Inr (None, [Log PWR (ErrorParsing FieldCurr)
                                [ArgInt (pwrID status), lineNo, ArgErr err, ArgStr line]])
     | Inr v2 \<Rightarrow>
     let status = status\<lparr>pwrCurr := v2\<rparr> in
     bindP (index flds 3) (\<lambda>f3.
     case parseInt f3 ''PWR Temp (Board)'' of
       Inl err \<Rightarrow> Inr (None, [Log PWR (ErrorParsing FieldTemp)
                                [ArgInt (pwrID status), lineNo, ArgErr err, ArgStr line]])
     | Inr v3 \<Rightarrow>
     let status = status\<lparr>pwrTemp := v3\<rparr> in
     bindP (index flds 8) (\<lambda>f8.
     let status = status\<lparr>pwrBaseState := parseBaseState f8\<rparr> in
     bindP (index flds 9) (\<lambda>f9.
     let status = status\<lparr>pwrVoltState := f9\<rparr> in
     bindP (index flds 10) (\<lambda>f10.
     let status = status\<lparr>pwrCurrState := f10\<rparr> in
     bindP (index flds 11) (\<lambda>f11.
     let status = status\<lparr>pwrTempState := f11\<rparr> in
     bindP (index flds 12) (\<lambda>f12.
     let (status, out1) =
       (case parseSOC f12 of
          Inl err \<Rightarrow> (status\<lparr>pwrCoulomb := - 1\<rparr>,
                       [Log PWR (WarningParsing FieldSOC)
                          [ArgInt (pwrID status), lineNo, ArgErr err]])
        | Inr socVal \<Rightarrow> (status\<lparr>pwrCoulomb := socVal\<rparr>, [])) in
     bindP (index flds 15) (\<lambda>f15.
     let status = status\<lparr>BVState := f15\<rparr> in
     bindP (index flds 16) (\<lambda>f16.
     let status = status\<lparr>BTState := f16\<rparr> in
     bindP (index flds 17) (\<lambda>f17.
     let status = status\<lparr>MosTemp := f17\<rparr> in
     bindP (index flds 18) (\<lambda>f18.
     let status = status\<lparr>MTState := f18\<rparr> in
     Inr (Some status, out1)))))))))))))))"

definition linePWR ::
  "nat \<Rightarrow> string \<Rightarrow> panic + (PowerStatus option \<times> logEntry list)" where
  "linePWR lineIdx line0 =
    (let line = TrimSpace line0 in
     if \<not> MatchString dataRegexPWR line \<or> Contains line ''Absent'' \<or> line = [] then
       Inr (None, [])
     else
       let flds = Fields line in
       if length flds < 19 then
         Inr (None, [Log PWR SkippingInsufficientFields
                       [ArgInt (int lineIdx + 1), ArgInt (int (length flds)), ArgStr line]])
       else assemblePWR lineIdx line flds)"

fun loopPWR ::
  "nat \<Rightarrow> string list \<Rightarrow> PowerStatus list \<Rightarrow> logEntry list
     \<Rightarrow> panic + (PowerStatus list \<times> logEntry list)" where
  "loopPWR lineIdx [] results out = Inr (results, out)"
| "loopPWR lineIdx (line # rest) results out =
     (case linePWR lineIdx line of
        Inl p \<Rightarrow> Inl p
      | Inr (None, es) \<Rightarrow> loopPWR (Suc lineIdx) rest results (out @ es)
      | Inr (Some status, es) \<Rightarrow> loopPWR (Suc lineIdx) rest (results @ [status]) (out @ es))"

definition foundDataLikeLinePWR :: "string list \<Rightarrow> bool" where
  "foundDataLikeLinePWR lines =
     list_ex (\<lambda>line. MatchString dataRegexPWR (TrimSpace line) \<and> \<not> Contains line ''Absent'') lines"

definition ParsePWR ::
  "string list \<Rightarrow> panic + ((PowerStatus list \<times> parseError option) \<times> logEntry list)" where
  "ParsePWR lines =
    (case loopPWR 0 lines [] [] of
       Inl p \<Rightarrow> Inl p
     | Inr (results, out) \<Rightarrow>
         let out =
           (if length results = 0 \<and> length lines > 0 then
              (if foundDataLikeLinePWR lines then out @ [Log PWR WarningNoRecords []] else out)
            else out)
         in Inr ((results, None), out))"

section \<open>Line classification\<close>

text \<open>
  A line is a data line when the loop does not skip it at its first \<^verbatim>\<open>continue\<close>:
  the negation of that condition, for each parser. Its tokens are the fields of the
  trimmed line.
\<close>

definition dataLineBAT :: "string \<Rightarrow> bool" where
  "dataLineBAT line0 =
     (let line = TrimSpace line0 in \<not> (\<not> MatchString dataRegexBAT line \<or> line = []))"

definition dataLinePWR :: "string \<Rightarrow> bool" where
  "dataLinePWR line0 =
     (let line = TrimSpace line0 in
      \<not> (\<not> MatchString dataRegexPWR line \<or> Contains line ''Absent'' \<or> line = []))"

definition tokens :: "string \<Rightarrow> string list" where
  "tokens line0 = Fields (TrimSpace line0)"

section \<open>The percentage decoder in the words of the specification\<close>

text \<open>
  Two definitions that follow the specification, to compare \<open>parseSOC\<close> with: the
  text without one trailing \<open>%\<close>, if it has one; and the integer that a text denotes
  as a base-10 signed integer, that is an optional sign and then one or more decimal
  digits, valued by position.
\<close>

definition specStripPercent :: "string \<Rightarrow> string" where
  "specStripPercent s = (if s \<noteq> [] \<and> last s = CHR ''%'' then butlast s else s)"

fun specDecimalValue :: "string \<Rightarrow> int" where
  "specDecimalValue [] = 0"
| "specDecimalValue (c # cs) = digitVal c * 10 ^ length cs + specDecimalValue cs"

definition specSignedDecimal :: "string \<Rightarrow> int option" where
  "specSignedDecimal s =
     (case s of
        [] \<Rightarrow> None
      | c # cs \<Rightarrow>
          if c = CHR ''-'' then
            (if cs \<noteq> [] \<and> list_all isDigit cs then Some (- specDecimalValue cs) else None)
          else if c = CHR ''+'' then
            (if cs \<noteq> [] \<and> list_all isDigit cs then Some (specDecimalValue cs) else None)
          else if list_all isDigit s then Some (specDecimalValue s) else None)"

section \<open>The assemblers, position by position\<close>

text \<open>
  With enough fields every access is in range, and an assembler is the table of the
  positions it reads, the decoder of each and the field it fills.
\<close>

lemma assembleBAT_fields:
  assumes "12 \<le> length flds"
  shows "assembleBAT i line flds =
    (case parseInt (flds ! 0) ''BAT ID'' of
       Inl err \<Rightarrow> Inr (None, [Log BAT (ErrorParsing FieldID)
                                [ArgInt (int i + 1), ArgErr err, ArgStr line]])
     | Inr v0 \<Rightarrow>
    (case parseInt (flds ! 1) ''BAT Volt'' of
       Inl err \<Rightarrow> Inr (None, [Log BAT (ErrorParsing FieldVolt)
                                [ArgInt v0, ArgInt (int i + 1), ArgErr err, ArgStr line]])
     | Inr v1 \<Rightarrow>
    (case parseInt (flds ! 2) ''BAT Curr'' of
       Inl err \<Rightarrow> Inr (None, [Log BAT (ErrorParsing FieldCurr)
                                [ArgInt v0, ArgInt (int i + 1), ArgErr err, ArgStr line]])
     | Inr v2 \<Rightarrow>
    (case parseInt (flds ! 3) ''BAT Temp'' of
       Inl err \<Rightarrow> Inr (None, [Log BAT (ErrorParsing FieldTemp)
                                [ArgInt v0, ArgInt (int i + 1), ArgErr err, ArgStr line]])
     | Inr v3 \<Rightarrow>
       Inr (Some \<lparr>ID = v0, Volt = v1, Curr = v2, Temp = v3,
                  BaseState = parseBaseState (flds ! 4),
                  VoltState = flds ! 5, CurrState = flds ! 6, TempState = flds ! 7,
                  SOC = (case parseSOC (flds ! 8) of Inl err \<Rightarrow> - 1 | Inr v \<Rightarrow> v),
                  Coulomb = (case parseCoulomb (flds ! 9) (flds ! 10) of
                               Inl err \<Rightarrow> - 1 | Inr v \<Rightarrow> v),
                  BAL = flds ! 11\<rparr>,
            (case parseSOC (flds ! 8) of
               Inl err \<Rightarrow> [Log BAT (WarningParsing FieldSOC)
                             [ArgInt v0, ArgInt (int i + 1), ArgErr err, ArgStr line]]
             | Inr v \<Rightarrow> []) @
            (case parseCoulomb (flds ! 9) (flds ! 10) of
               Inl err \<Rightarrow> [Log BAT (WarningParsing FieldCoulomb)
                             [ArgInt v0, ArgInt (int i + 1), ArgErr err]]
             | Inr v \<Rightarrow> []))))))"
proof -
  from assms have idx: "\<And>k. k < 12 \<Longrightarrow> index flds k = Inr (flds ! k)"
    by (simp add: index_def)
  show ?thesis
    by (auto simp: assembleBAT_def idx bindP_def zeroBatteryStatus_def Let_def
             split: sum.splits)
qed

lemma assemblePWR_fields:
  assumes "19 \<le> length flds"
  shows "assemblePWR i line flds =
    (case parseInt (flds ! 0) ''PWR ID'' of
       Inl err \<Rightarrow> Inr (None, [Log PWR (ErrorParsing FieldID)
                                [ArgInt (int i + 1), ArgErr err, ArgStr line]])
     | Inr v0 \<Rightarrow>
    (case parseInt (flds ! 1) ''PWR Volt'' of
       Inl err \<Rightarrow> Inr (None, [Log PWR (ErrorParsing FieldVolt)
                                [ArgInt v0, ArgInt (int i + 1), ArgErr err, ArgStr line]])
     | Inr v1 \<Rightarrow>
    (case parseInt (flds ! 2) ''PWR Curr'' of
       Inl err \<Rightarrow> Inr (None, [Log PWR (ErrorParsing FieldCurr)
                                [ArgInt v0, ArgInt (int i + 1), ArgErr err, ArgStr line]])
     | Inr v2 \<Rightarrow>
    (case parseInt (flds ! 3) ''PWR Temp (Board)'' of
       Inl err \<Rightarrow> Inr (None, [Log PWR (ErrorParsing FieldTemp)
                                [ArgInt v0, ArgInt (int i + 1), ArgErr err, ArgStr line]])
     | Inr v3 \<Rightarrow>
       Inr (Some \<lparr>pwrID = v0, pwrVolt = v1, pwrCurr = v2, pwrTemp = v3,
                  pwrBaseState = parseBaseState (flds ! 8),
                  pwrVoltState = flds ! 9, pwrCurrState = flds ! 10, pwrTempState = flds ! 11,
                  pwrCoulomb = (case parseSOC (flds ! 12) of Inl err \<Rightarrow> - 1 | Inr v \<Rightarrow> v),
                  BVState = flds ! 15, BTState = flds ! 16, MosTemp = flds ! 17,
                  MTState = flds ! 18\<rparr>,
            (case parseSOC (flds ! 12) of
               Inl err \<Rightarrow> [Log PWR (WarningParsing FieldSOC)
                             [ArgInt v0, ArgInt (int i + 1), ArgErr err]]
             | Inr v \<Rightarrow> []))))))"
proof -
  from assms have idx: "\<And>k. k < 19 \<Longrightarrow> index flds k = Inr (flds ! k)"
    by (simp add: index_def)
  show ?thesis
    by (auto simp: assemblePWR_def idx bindP_def zeroPowerStatus_def Let_def
             split: sum.splits)
qed

section \<open>Trimming keeps the occurrences of \<open>Absent\<close>\<close>

lemma sublist_skip_left:
  assumes "set w \<inter> set sub = {}" and "sub \<noteq> []"
  shows "sublist sub (w @ r) = sublist sub r"
  using assms
proof (induction w)
  case Nil
  then show ?case by simp
next
  case (Cons a w)
  then obtain x xs where sub: "sub = x # xs" by (cases sub) auto
  with Cons.prems have "a \<noteq> x" by auto
  then have "\<not> prefix sub (a # (w @ r))" by (simp add: sub)
  moreover from Cons have "sublist sub (w @ r) = sublist sub r" by auto
  ultimately show ?case by (simp add: sublist_Cons_right)
qed

lemma sublist_skip_right:
  assumes "set w \<inter> set sub = {}" and "sub \<noteq> []"
  shows "sublist sub (r @ w) = sublist sub r"
proof -
  have "sublist sub (r @ w) = sublist (rev sub) (rev w @ rev r)"
    by (metis rev_append sublist_rev)
  also have "\<dots> = sublist (rev sub) (rev r)"
    using assms by (intro sublist_skip_left) auto
  finally show ?thesis by simp
qed

lemma spaceRunes_not_Absent: "w \<in> set spaceRunes \<Longrightarrow> set w \<inter> set ''Absent'' = {}"
  by (auto simp: spaceRunes_def)

lemma Contains_trimLeft: "Contains (trimLeft s) ''Absent'' = Contains s ''Absent''"
proof (induction s rule: trimLeft.induct)
  case (1 s)
  show ?case
  proof (cases "leadingSpace s")
    case None
    then show ?thesis by (simp add: trimLeft.simps [of s])
  next
    case (Some w)
    from leadingSpace_Some [OF Some] obtain r where s: "s = w @ r" and w: "w \<in> set spaceRunes"
      by (auto simp: prefix_def)
    have "Contains (trimLeft s) ''Absent'' = Contains (drop (length w) s) ''Absent''"
      using "1.IH" [OF Some] Some by (simp add: trimLeft.simps [of s])
    also have "\<dots> = Contains r ''Absent''" by (simp add: s)
    also have "\<dots> = Contains s ''Absent''"
      unfolding Contains_def s
      by (rule sublist_skip_left [symmetric]) (use spaceRunes_not_Absent [OF w] in auto)
    finally show ?thesis .
  qed
qed

lemma Contains_trimRight: "Contains (trimRight s) ''Absent'' = Contains s ''Absent''"
proof (induction s rule: trimRight.induct)
  case (1 s)
  show ?case
  proof (cases "trailingSpace s")
    case None
    then show ?thesis by (simp add: trimRight.simps [of s])
  next
    case (Some w)
    from trailingSpace_Some [OF Some] obtain r where s: "s = r @ w" and w: "w \<in> set spaceRunes"
      by (auto simp: suffix_def)
    have "Contains (trimRight s) ''Absent'' = Contains (take (length s - length w) s) ''Absent''"
      using "1.IH" [OF Some] Some by (simp add: trimRight.simps [of s])
    also have "\<dots> = Contains r ''Absent''" by (simp add: s)
    also have "\<dots> = Contains s ''Absent''"
      unfolding Contains_def s
      by (rule sublist_skip_right [symmetric]) (use spaceRunes_not_Absent [OF w] in auto)
    finally show ?thesis .
  qed
qed

lemma Contains_TrimSpace: "Contains (TrimSpace s) ''Absent'' = Contains s ''Absent''"
  by (simp add: TrimSpace_def Contains_trimRight Contains_trimLeft)

lemma MatchString_BAT_empty: "\<not> MatchString dataRegexBAT []"
  by (simp add: MatchString_def dataRegexBAT_def Plus_def perlDigit_def)

lemma MatchString_PWR_empty: "\<not> MatchString dataRegexPWR []"
  by (simp add: MatchString_def dataRegexPWR_def Plus_def perlDigit_def)

section \<open>One line, and the loop over the lines\<close>

lemma lineBAT_noise: "\<not> dataLineBAT l \<Longrightarrow> lineBAT i l = Inr (None, [])"
  by (auto simp: dataLineBAT_def lineBAT_def Let_def)

lemma lineBAT_short:
  "dataLineBAT l \<Longrightarrow> length (tokens l) < 12 \<Longrightarrow>
   lineBAT i l =
     Inr (None, [Log BAT SkippingInsufficientFields
                   [ArgInt (int i + 1), ArgInt (int (length (tokens l))), ArgStr (TrimSpace l)]])"
  by (auto simp: dataLineBAT_def lineBAT_def tokens_def Let_def)

lemma lineBAT_assemble:
  "dataLineBAT l \<Longrightarrow> 12 \<le> length (tokens l) \<Longrightarrow>
   lineBAT i l = assembleBAT i (TrimSpace l) (tokens l)"
  by (auto simp: dataLineBAT_def lineBAT_def tokens_def Let_def)

lemma linePWR_noise: "\<not> dataLinePWR l \<Longrightarrow> linePWR i l = Inr (None, [])"
  by (auto simp: dataLinePWR_def linePWR_def Let_def)

lemma linePWR_short:
  "dataLinePWR l \<Longrightarrow> length (tokens l) < 19 \<Longrightarrow>
   linePWR i l =
     Inr (None, [Log PWR SkippingInsufficientFields
                   [ArgInt (int i + 1), ArgInt (int (length (tokens l))), ArgStr (TrimSpace l)]])"
  by (auto simp: dataLinePWR_def linePWR_def tokens_def Let_def)

lemma linePWR_assemble:
  "dataLinePWR l \<Longrightarrow> 19 \<le> length (tokens l) \<Longrightarrow>
   linePWR i l = assemblePWR i (TrimSpace l) (tokens l)"
  by (auto simp: dataLinePWR_def linePWR_def tokens_def Let_def)

lemma assembleBAT_returns:
  "12 \<le> length flds \<Longrightarrow> \<exists>r es. assembleBAT i line flds = Inr (r, es)"
  by (simp add: assembleBAT_fields split: sum.splits)

lemma assemblePWR_returns:
  "19 \<le> length flds \<Longrightarrow> \<exists>r es. assemblePWR i line flds = Inr (r, es)"
  by (simp add: assemblePWR_fields split: sum.splits)

lemma lineBAT_returns: "\<exists>r es. lineBAT i l = Inr (r, es)"
proof (cases "dataLineBAT l")
  case False
  then show ?thesis by (simp add: lineBAT_noise)
next
  case True
  show ?thesis
  proof (cases "length (tokens l) < 12")
    case True
    with \<open>dataLineBAT l\<close> show ?thesis by (simp add: lineBAT_short)
  next
    case False
    with \<open>dataLineBAT l\<close> show ?thesis by (simp add: lineBAT_assemble assembleBAT_returns)
  qed
qed

lemma linePWR_returns: "\<exists>r es. linePWR i l = Inr (r, es)"
proof (cases "dataLinePWR l")
  case False
  then show ?thesis by (simp add: linePWR_noise)
next
  case True
  show ?thesis
  proof (cases "length (tokens l) < 19")
    case True
    with \<open>dataLinePWR l\<close> show ?thesis by (simp add: linePWR_short)
  next
    case False
    with \<open>dataLinePWR l\<close> show ?thesis by (simp add: linePWR_assemble assemblePWR_returns)
  qed
qed

lemma loopBAT_returns: "\<exists>rs' out'. loopBAT i ls rs out = Inr (rs', out')"
proof (induction ls arbitrary: i rs out)
  case Nil
  then show ?case by simp
next
  case (Cons l ls)
  obtain r es where "lineBAT i l = Inr (r, es)" using lineBAT_returns by blast
  then show ?case using Cons.IH by (cases r) auto
qed

lemma loopPWR_returns: "\<exists>rs' out'. loopPWR i ls rs out = Inr (rs', out')"
proof (induction ls arbitrary: i rs out)
  case Nil
  then show ?case by simp
next
  case (Cons l ls)
  obtain r es where "linePWR i l = Inr (r, es)" using linePWR_returns by blast
  then show ?case using Cons.IH by (cases r) auto
qed

lemma assembleBAT_log:
  "12 \<le> length flds \<Longrightarrow> assembleBAT i line flds = Inr (r, es) \<Longrightarrow>
   Log k WarningNoRecords a \<notin> set es"
  by (auto simp: assembleBAT_fields split: sum.splits)

lemma assemblePWR_log:
  "19 \<le> length flds \<Longrightarrow> assemblePWR i line flds = Inr (r, es) \<Longrightarrow>
   Log k WarningNoRecords a \<notin> set es"
  by (auto simp: assemblePWR_fields split: sum.splits)

lemma lineBAT_log:
  assumes "lineBAT i l = Inr (r, es)"
  shows "Log k WarningNoRecords a \<notin> set es"
proof (cases "dataLineBAT l")
  case False
  with assms show ?thesis by (simp add: lineBAT_noise)
next
  case True
  show ?thesis
  proof (cases "length (tokens l) < 12")
    case True
    with \<open>dataLineBAT l\<close> assms show ?thesis by (auto simp: lineBAT_short)
  next
    case False
    with \<open>dataLineBAT l\<close> assms show ?thesis
      by (auto simp: lineBAT_assemble dest: assembleBAT_log [rotated])
  qed
qed

lemma linePWR_log:
  assumes "linePWR i l = Inr (r, es)"
  shows "Log k WarningNoRecords a \<notin> set es"
proof (cases "dataLinePWR l")
  case False
  with assms show ?thesis by (simp add: linePWR_noise)
next
  case True
  show ?thesis
  proof (cases "length (tokens l) < 19")
    case True
    with \<open>dataLinePWR l\<close> assms show ?thesis by (auto simp: linePWR_short)
  next
    case False
    with \<open>dataLinePWR l\<close> assms show ?thesis
      by (auto simp: linePWR_assemble dest: assemblePWR_log [rotated])
  qed
qed

lemma loopBAT_log:
  "loopBAT i ls rs out = Inr (rs', out') \<Longrightarrow> Log k WarningNoRecords a \<notin> set out \<Longrightarrow>
   Log k WarningNoRecords a \<notin> set out'"
proof (induction ls arbitrary: i rs out)
  case Nil
  then show ?case by simp
next
  case (Cons l ls)
  obtain r es where line: "lineBAT i l = Inr (r, es)" using lineBAT_returns by blast
  from lineBAT_log [OF line] Cons.prems(2)
  have "Log k WarningNoRecords a \<notin> set (out @ es)" by simp
  with Cons.IH Cons.prems(1) line show ?case by (cases r) auto
qed

lemma loopPWR_log:
  "loopPWR i ls rs out = Inr (rs', out') \<Longrightarrow> Log k WarningNoRecords a \<notin> set out \<Longrightarrow>
   Log k WarningNoRecords a \<notin> set out'"
proof (induction ls arbitrary: i rs out)
  case Nil
  then show ?case by simp
next
  case (Cons l ls)
  obtain r es where line: "linePWR i l = Inr (r, es)" using linePWR_returns by blast
  from linePWR_log [OF line] Cons.prems(2)
  have "Log k WarningNoRecords a \<notin> set (out @ es)" by simp
  with Cons.IH Cons.prems(1) line show ?case by (cases r) auto
qed

section \<open>What an assembler returns\<close>



lemma assembleBAT_record:
  assumes "12 \<le> length flds"
    and "\<not> isl (parseInt (flds ! 0) ''BAT ID'')" and "\<not> isl (parseInt (flds ! 1) ''BAT Volt'')"
    and "\<not> isl (parseInt (flds ! 2) ''BAT Curr'')" and "\<not> isl (parseInt (flds ! 3) ''BAT Temp'')"
  shows "\<exists>st es. assembleBAT i line flds = Inr (Some st, es) \<and>
      Inr (ID st) = parseInt (flds ! 0) ''BAT ID'' \<and>
      Inr (Volt st) = parseInt (flds ! 1) ''BAT Volt'' \<and>
      Inr (Curr st) = parseInt (flds ! 2) ''BAT Curr'' \<and>
      Inr (Temp st) = parseInt (flds ! 3) ''BAT Temp'' \<and>
      BaseState st = parseBaseState (flds ! 4) \<and>
      VoltState st = flds ! 5 \<and> CurrState st = flds ! 6 \<and> TempState st = flds ! 7 \<and>
      SOC st = (case parseSOC (flds ! 8) of Inl err \<Rightarrow> - 1 | Inr v \<Rightarrow> v) \<and>
      Coulomb st = (case parseCoulomb (flds ! 9) (flds ! 10) of Inl err \<Rightarrow> - 1 | Inr v \<Rightarrow> v) \<and>
      BAL st = flds ! 11 \<and>
      es = (case parseSOC (flds ! 8) of
              Inl err \<Rightarrow> [Log BAT (WarningParsing FieldSOC)
                            [ArgInt (ID st), ArgInt (int i + 1), ArgErr err, ArgStr line]]
            | Inr v \<Rightarrow> []) @
           (case parseCoulomb (flds ! 9) (flds ! 10) of
              Inl err \<Rightarrow> [Log BAT (WarningParsing FieldCoulomb)
                            [ArgInt (ID st), ArgInt (int i + 1), ArgErr err]]
            | Inr v \<Rightarrow> [])"
  using assms(2-5) by (auto simp: assembleBAT_fields [OF assms(1)] split: sum.splits)

lemma assemblePWR_record:
  assumes "19 \<le> length flds"
    and "\<not> isl (parseInt (flds ! 0) ''PWR ID'')" and "\<not> isl (parseInt (flds ! 1) ''PWR Volt'')"
    and "\<not> isl (parseInt (flds ! 2) ''PWR Curr'')"
    and "\<not> isl (parseInt (flds ! 3) ''PWR Temp (Board)'')"
  shows "\<exists>st es. assemblePWR i line flds = Inr (Some st, es) \<and>
      Inr (pwrID st) = parseInt (flds ! 0) ''PWR ID'' \<and>
      Inr (pwrVolt st) = parseInt (flds ! 1) ''PWR Volt'' \<and>
      Inr (pwrCurr st) = parseInt (flds ! 2) ''PWR Curr'' \<and>
      Inr (pwrTemp st) = parseInt (flds ! 3) ''PWR Temp (Board)'' \<and>
      pwrBaseState st = parseBaseState (flds ! 8) \<and>
      pwrVoltState st = flds ! 9 \<and> pwrCurrState st = flds ! 10 \<and> pwrTempState st = flds ! 11 \<and>
      pwrCoulomb st = (case parseSOC (flds ! 12) of Inl err \<Rightarrow> - 1 | Inr v \<Rightarrow> v) \<and>
      BVState st = flds ! 15 \<and> BTState st = flds ! 16 \<and> MosTemp st = flds ! 17 \<and>
      MTState st = flds ! 18 \<and>
      es = (case parseSOC (flds ! 12) of
              Inl err \<Rightarrow> [Log PWR (WarningParsing FieldSOC)
                            [ArgInt (pwrID st), ArgInt (int i + 1), ArgErr err]]
            | Inr v \<Rightarrow> [])"
  using assms(2-5) by (auto simp: assemblePWR_fields [OF assms(1)] split: sum.splits)

lemma assembleBAT_Some:
  assumes "12 \<le> length flds" and "assembleBAT i line flds = Inr (Some st, es)"
  shows "\<not> isl (parseInt (flds ! 0) ''BAT ID'') \<and> \<not> isl (parseInt (flds ! 1) ''BAT Volt'') \<and>
         \<not> isl (parseInt (flds ! 2) ''BAT Curr'') \<and> \<not> isl (parseInt (flds ! 3) ''BAT Temp'')"
  using assms(2) by (auto simp: assembleBAT_fields [OF assms(1)] split: sum.splits)

lemma assemblePWR_Some:
  assumes "19 \<le> length flds" and "assemblePWR i line flds = Inr (Some st, es)"
  shows "\<not> isl (parseInt (flds ! 0) ''PWR ID'') \<and> \<not> isl (parseInt (flds ! 1) ''PWR Volt'') \<and>
         \<not> isl (parseInt (flds ! 2) ''PWR Curr'') \<and>
         \<not> isl (parseInt (flds ! 3) ''PWR Temp (Board)'')"
  using assms(2) by (auto simp: assemblePWR_fields [OF assms(1)] split: sum.splits)

lemma lineBAT_Some:
  assumes "lineBAT i l = Inr (Some st, es)"
  shows "dataLineBAT l \<and> 12 \<le> length (tokens l)"
proof -
  have d: "dataLineBAT l" using assms by (cases "dataLineBAT l") (auto simp: lineBAT_noise)
  moreover have "12 \<le> length (tokens l)"
    using assms d by (cases "length (tokens l) < 12") (auto simp: lineBAT_short)
  ultimately show ?thesis by simp
qed

lemma linePWR_Some:
  assumes "linePWR i l = Inr (Some st, es)"
  shows "dataLinePWR l \<and> 19 \<le> length (tokens l)"
proof -
  have d: "dataLinePWR l" using assms by (cases "dataLinePWR l") (auto simp: linePWR_noise)
  moreover have "19 \<le> length (tokens l)"
    using assms d by (cases "length (tokens l) < 19") (auto simp: linePWR_short)
  ultimately show ?thesis by simp
qed

lemma loopBAT_keep:
  "lineBAT i l = Inr (Some st, es) \<Longrightarrow>
   loopBAT i (l # rest) rs out = loopBAT (Suc i) rest (rs @ [st]) (out @ es)"
  by simp


section \<open>What Atoi accepts, and narrowing to eight bits\<close>

lemma sint_int8: "sint (word_of_int n :: 8 word) = (n + 128) mod 256 - 128"
  by (simp add: sint_sbintrunc' signed_take_bit_eq_take_bit_shift take_bit_eq_mod)

lemma sint_int8_small: "- 128 \<le> n \<Longrightarrow> n \<le> 127 \<Longrightarrow> sint (word_of_int n :: 8 word) = n"
  unfolding sint_int8 by (simp add: zmod_trivial_iff)

lemma TrimSuffix_percent: "TrimSuffix s ''%'' = specStripPercent s"
proof (cases s rule: rev_cases)
  case Nil
  then show ?thesis by (simp add: TrimSuffix_def specStripPercent_def)
next
  case (snoc ys y)
  then show ?thesis by (auto simp: TrimSuffix_def specStripPercent_def suffix_def)
qed

lemma digitVal_range: "isDigit c \<Longrightarrow> 0 \<le> digitVal c \<and> digitVal c \<le> 9"
  by (auto simp: isDigit_def digitVal_def)

lemma specDecimalValue_nonneg: "list_all isDigit ds \<Longrightarrow> 0 \<le> specDecimalValue ds"
  by (induction ds) (auto dest: digitVal_range)

lemma parseUintFrom_not_digits: "\<not> list_all isDigit ds \<Longrightarrow> isl (parseUintFrom n ds)"
  by (induction ds arbitrary: n) auto

lemma parseUintFrom_fits:
  "list_all isDigit ds \<Longrightarrow> 0 \<le> n \<Longrightarrow>
   n * 10 ^ length ds + specDecimalValue ds \<le> 18446744073709551615 \<Longrightarrow>
   parseUintFrom n ds = Inr (n * 10 ^ length ds + specDecimalValue ds)"
proof (induction ds arbitrary: n)
  case Nil
  then show ?case by simp
next
  case (Cons c cs)
  from Cons.prems have c: "isDigit c" and cs: "list_all isDigit cs" by simp_all
  let ?m = "n * 10 + digitVal c"
  from c Cons.prems(2) have m0: "0 \<le> ?m" using digitVal_range [of c] by simp
  have eq: "n * 10 ^ length (c # cs) + specDecimalValue (c # cs) = ?m * 10 ^ length cs + specDecimalValue cs"
    by (simp add: algebra_simps)
  have "?m * 1 \<le> ?m * 10 ^ length cs" using m0 by (intro mult_left_mono) simp_all
  then have "?m \<le> ?m * 10 ^ length cs" by simp
  moreover have "0 \<le> specDecimalValue cs" using cs by (rule specDecimalValue_nonneg)
  moreover have "?m * 10 ^ length cs + specDecimalValue cs \<le> 18446744073709551615"
    using Cons.prems(3) unfolding eq .
  ultimately have "?m \<le> 18446744073709551615" by linarith
  moreover have "parseUintFrom ?m cs = Inr (?m * 10 ^ length cs + specDecimalValue cs)"
    using Cons.prems(3) unfolding eq by (intro Cons.IH cs m0)
  ultimately show ?case using c unfolding eq by simp
qed

lemma parseUintFrom_overflow:
  "list_all isDigit ds \<Longrightarrow> 0 \<le> n \<Longrightarrow> n \<le> 18446744073709551615 \<Longrightarrow>
   18446744073709551615 < n * 10 ^ length ds + specDecimalValue ds \<Longrightarrow>
   parseUintFrom n ds = Inl ErrRange"
proof (induction ds arbitrary: n)
  case Nil
  then show ?case by simp
next
  case (Cons c cs)
  from Cons.prems have c: "isDigit c" and cs: "list_all isDigit cs" by simp_all
  let ?m = "n * 10 + digitVal c"
  from c Cons.prems(2) have m0: "0 \<le> ?m" using digitVal_range [of c] by simp
  have eq: "n * 10 ^ length (c # cs) + specDecimalValue (c # cs) = ?m * 10 ^ length cs + specDecimalValue cs"
    by (simp add: algebra_simps)
  show ?case
  proof (cases "?m > 18446744073709551615")
    case True
    with c show ?thesis by simp
  next
    case False
    moreover have "parseUintFrom ?m cs = Inl ErrRange"
      using Cons.prems(4) False unfolding eq by (intro Cons.IH cs m0) simp_all
    ultimately show ?thesis using c by simp
  qed
qed

lemma ParseUint_digits:
  assumes "ds \<noteq> []" and "list_all isDigit ds"
  shows "ParseUint ds =
           (if specDecimalValue ds \<le> 18446744073709551615 then Inr (specDecimalValue ds) else Inl ErrRange)"
  using assms parseUintFrom_fits [of ds 0] parseUintFrom_overflow [of ds 0]
  by (auto simp: ParseUint_def)

lemma ParseUint_not_digits: "ds = [] \<or> \<not> list_all isDigit ds \<Longrightarrow> isl (ParseUint ds)"
  by (auto simp: ParseUint_def dest: parseUintFrom_not_digits)

lemma Atoi_signedDecimal:
  "Atoi s = Inr n \<longleftrightarrow>
     specSignedDecimal s = Some n \<and> - 9223372036854775808 \<le> n \<and> n \<le> 9223372036854775807"
proof (cases s)
  case Nil
  then show ?thesis by (simp add: Atoi_def ParseInt_def specSignedDecimal_def)
next
  case (Cons c cs)
  consider (minus) "c = CHR ''-''" | (plus) "c = CHR ''+''" | (none) "c \<noteq> CHR ''-''" "c \<noteq> CHR ''+''"
    by blast
  then show ?thesis
  proof cases
    case minus
    show ?thesis
    proof (cases "cs \<noteq> [] \<and> list_all isDigit cs")
      case True
      then show ?thesis
        using specDecimalValue_nonneg [of cs]
        by (auto simp: Atoi_def ParseInt_def specSignedDecimal_def Cons minus ParseUint_digits)
    next
      case False
      then have "isl (ParseUint cs)" by (intro ParseUint_not_digits) auto
      with False show ?thesis
        by (auto simp: Atoi_def ParseInt_def specSignedDecimal_def Cons minus split: sum.splits numError.splits)
    qed
  next
    case plus
    show ?thesis
    proof (cases "cs \<noteq> [] \<and> list_all isDigit cs")
      case True
      then show ?thesis
        using specDecimalValue_nonneg [of cs]
        by (auto simp: Atoi_def ParseInt_def specSignedDecimal_def Cons plus ParseUint_digits)
    next
      case False
      then have "isl (ParseUint cs)" by (intro ParseUint_not_digits) auto
      with False show ?thesis
        by (auto simp: Atoi_def ParseInt_def specSignedDecimal_def Cons plus split: sum.splits numError.splits)
    qed
  next
    case none
    show ?thesis
    proof (cases "list_all isDigit s")
      case True
      then show ?thesis
        using specDecimalValue_nonneg [of s] ParseUint_digits [of s] none
        by (auto simp: Atoi_def ParseInt_def specSignedDecimal_def Cons)
    next
      case False
      then have "isl (ParseUint s)" by (intro ParseUint_not_digits) auto
      with False none show ?thesis
        by (auto simp: Atoi_def ParseInt_def specSignedDecimal_def Cons split: sum.splits numError.splits)
    qed
  qed
qed

section \<open>The state decoder\<close>

text \<open>
  C5. The state decoder \<open>parseBaseState\<close> maps \<open>Charge\<close> to 0, \<open>Dischg\<close> to 1,
  \<open>Idle\<close> to 2 and \<open>Balance\<close> to 3, and every other token, \<open>N/A\<close> among them,
  to \<open>-1\<close>. Its result type is \<open>int8\<close>, with no error beside it: the lookup of a
  missing key does not fail, and the function has a value at every token.
\<close>

theorem C5_parseBaseState_total:
  "parseBaseState ''Charge'' = 0 \<and> parseBaseState ''Dischg'' = 1 \<and>
   parseBaseState ''Idle'' = 2 \<and> parseBaseState ''Balance'' = 3 \<and>
   parseBaseState ''N/A'' = - 1 \<and> sint (parseBaseState ''N/A'') = - 1 \<and>
   (\<forall>s. s \<notin> {''Charge'', ''Dischg'', ''Idle'', ''Balance''} \<longrightarrow>
        parseBaseState s = - 1 \<and> sint (parseBaseState s) = - 1)"
  by (simp add: parseBaseState_def baseStateMap_def)

theorem C5_parseBaseState_total_witness:
  "''Standby'' \<notin> {''Charge'', ''Dischg'', ''Idle'', ''Balance''} \<and>
   parseBaseState ''Standby'' = - 1 \<and> sint (parseBaseState ''Standby'') = - 1 \<and>
   parseBaseState ''Idle'' = 2"
  using C5_parseBaseState_total by simp

section \<open>The batch parsers return\<close>

text \<open>
  C3. For every sequence of lines \<open>ParseBAT\<close> and \<open>ParsePWR\<close> return, without a
  panic, and the error they return is \<^verbatim>\<open>nil\<close> (\<open>None\<close>): whatever the lines hold,
  the result is a record sequence with a nil error, and the problems of single lines
  are in the log only.
\<close>

theorem C3_batch_parse_returns_nil_error:
  "(\<exists>results out. ParseBAT lines = Inr ((results, None), out)) \<and>
   (\<exists>results out. ParsePWR lines = Inr ((results, None), out))"
proof
  obtain rs out where "loopBAT 0 lines [] [] = Inr (rs, out)"
    using loopBAT_returns by blast
  then show "\<exists>results out. ParseBAT lines = Inr ((results, None), out)"
    by (simp add: ParseBAT_def Let_def)
next
  obtain rs out where "loopPWR 0 lines [] [] = Inr (rs, out)"
    using loopPWR_returns by blast
  then show "\<exists>results out. ParsePWR lines = Inr ((results, None), out)"
    by (simp add: ParsePWR_def Let_def)
qed

theorem C3_batch_parse_returns_nil_error_witness:
  "(\<exists>results out. ParseBAT [''@ 1 x'', ''1 3750 volts'', ''1 2 3 4 5 6 7 8 9 10 11 12'']
      = Inr ((results, None), out)) \<and>
   (\<exists>results out. ParsePWR [''@ 1 x'', ''1 3750 volts'', ''1 2 3 4 5 6 7 8 9 10 11 12'']
      = Inr ((results, None), out))"
  using C3_batch_parse_returns_nil_error
          [of "[''@ 1 x'', ''1 3750 volts'', ''1 2 3 4 5 6 7 8 9 10 11 12'']"]
  by simp

section \<open>A valid battery line\<close>

text \<open>
  C7. For the single line
  \<open>1 3750 0 301 Charge Normal Normal Normal 85% 3450 mAH 0000000000000000\<close>
  \<open>ParseBAT\<close> returns exactly one record, with ID 1, Volt 3750, Curr 0, Temp 301,
  BaseState 0, SOC 85, Coulomb 3450 and BAL \<open>0000000000000000\<close> (the three status
  tokens are \<open>Normal\<close>), a nil error and an empty log.
\<close>

theorem C7_valid_battery_line:
  "ParseBAT [''1 3750 0 301 Charge Normal Normal Normal 85% 3450 mAH 0000000000000000''] =
     Inr (([\<lparr>ID = 1, Volt = 3750, Curr = 0, Temp = 301, BaseState = 0,
              VoltState = ''Normal'', CurrState = ''Normal'', TempState = ''Normal'',
              SOC = 85, Coulomb = 3450, BAL = ''0000000000000000''\<rparr>], None), [])"
  by code_simp

section \<open>Critical fields and degraded fields\<close>



section \<open>Lines that contain \<open>Absent\<close>\<close>

lemma Absent_not_dataLinePWR: "Contains l ''Absent'' \<Longrightarrow> \<not> dataLinePWR l"
  by (simp add: dataLinePWR_def Let_def Contains_TrimSpace)

lemma loopPWR_all_Absent:
  "\<forall>x\<in>set ls. Contains x ''Absent'' \<Longrightarrow> loopPWR i ls rs out = Inr (rs, out)"
  by (induction ls arbitrary: i) (simp_all add: linePWR_noise Absent_not_dataLinePWR)

lemma foundDataLikeLinePWR_all_Absent:
  "\<forall>x\<in>set ls. Contains x ''Absent'' \<Longrightarrow> \<not> foundDataLikeLinePWR ls"
  by (auto simp: foundDataLikeLinePWR_def list_ex_iff)

lemma assembleBAT_not_silent:
  "12 \<le> length flds \<Longrightarrow> assembleBAT i line flds \<noteq> Inr (None, [])"
  by (simp add: assembleBAT_fields split: sum.splits)

lemma lineBAT_silent_iff: "lineBAT i l = Inr (None, []) \<longleftrightarrow> \<not> dataLineBAT l"
proof (cases "dataLineBAT l")
  case False
  then show ?thesis by (simp add: lineBAT_noise)
next
  case True
  show ?thesis
  proof (cases "length (tokens l) < 12")
    case True
    with \<open>dataLineBAT l\<close> show ?thesis by (simp add: lineBAT_short)
  next
    case False
    with \<open>dataLineBAT l\<close> show ?thesis by (simp add: lineBAT_assemble assembleBAT_not_silent)
  qed
qed

text \<open>
  C2, as stated, fails for battery parsing: \<open>ParseBAT\<close> has no test for \<open>Absent\<close>,
  and a line with the two-number prefix and twelve tokens yields a record although one
  of its tokens is \<open>Absent\<close>.
\<close>

theorem C2_counterexample:
  "Contains ''1 3750 0 301 Charge Absent Normal Normal 85% 3450 mAH 0000000000000000'' ''Absent'' \<and>
   ParseBAT [''1 3750 0 301 Charge Absent Normal Normal 85% 3450 mAH 0000000000000000''] =
     Inr (([\<lparr>ID = 1, Volt = 3750, Curr = 0, Temp = 301, BaseState = 0,
              VoltState = ''Absent'', CurrState = ''Normal'', TempState = ''Normal'',
              SOC = 85, Coulomb = 3450, BAL = ''0000000000000000''\<rparr>], None), [])"
  by code_simp

text \<open>
  C2, amended. In power parsing every line that contains \<open>Absent\<close> is skipped as
  noise, whatever its prefix: the loop body yields no record and logs nothing, the loop
  goes on with records and log unchanged, and a batch of such lines returns no record
  and an empty log. Battery parsing has no such rule: there the loop body skips a line
  silently exactly when the trimmed line lacks the two-number prefix.
\<close>

theorem C2_absent_line_power:
  "(Contains l ''Absent'' \<longrightarrow>
      \<not> dataLinePWR l \<and> linePWR i l = Inr (None, []) \<and>
      loopPWR i (l # rest) rs out = loopPWR (Suc i) rest rs out) \<and>
   ((\<forall>x\<in>set ls. Contains x ''Absent'') \<longrightarrow> ParsePWR ls = Inr (([], None), [])) \<and>
   (lineBAT i l = Inr (None, []) \<longleftrightarrow> \<not> MatchString dataRegexBAT (TrimSpace l))"
proof (intro conjI impI)
  assume a: "Contains l ''Absent''"
  then show "\<not> dataLinePWR l" by (rule Absent_not_dataLinePWR)
  then show line: "linePWR i l = Inr (None, [])" by (rule linePWR_noise)
  then show "loopPWR i (l # rest) rs out = loopPWR (Suc i) rest rs out" by simp
next
  assume "\<forall>x\<in>set ls. Contains x ''Absent''"
  then show "ParsePWR ls = Inr (([], None), [])"
    by (simp add: ParsePWR_def loopPWR_all_Absent foundDataLikeLinePWR_all_Absent)
next
  show "lineBAT i l = Inr (None, []) \<longleftrightarrow> \<not> MatchString dataRegexBAT (TrimSpace l)"
    using MatchString_BAT_empty by (auto simp: lineBAT_silent_iff dataLineBAT_def Let_def)
qed

theorem C2_absent_line_power_witness:
  "Contains ''2 - - - - - - - Absent - - - - - - - - -'' ''Absent'' \<and>
   MatchString dataRegexPWR (TrimSpace ''2 - - - - - - - Absent - - - - - - - - -'') \<and>
   linePWR 1 ''2 - - - - - - - Absent - - - - - - - - -'' = Inr (None, []) \<and>
   Contains ''3 498 0 Absent'' ''Absent'' \<and>
   ParsePWR [''2 - - - - - - - Absent - - - - - - - - -'', ''3 498 0 Absent''] =
     Inr (([], None), [])"
proof -
  define l where "l = ''2 - - - - - - - Absent - - - - - - - - -''"
  define l' where "l' = ''3 498 0 Absent''"
  have h: "Contains l ''Absent''" "MatchString dataRegexPWR (TrimSpace l)"
    "Contains l' ''Absent''"
    unfolding l_def l'_def by code_simp+
  then have hs: "\<forall>x\<in>set [l, l']. Contains x ''Absent''" by simp
  have "linePWR 1 l = Inr (None, [])"
    using C2_absent_line_power [where l = l and i = 1] h(1) by blast
  moreover have "ParsePWR [l, l'] = Inr (([], None), [])"
    using C2_absent_line_power [where ls = "[l, l']"] hs by blast
  ultimately show ?thesis using h unfolding l_def l'_def by blast
qed

section \<open>Lines with too few tokens\<close>

lemma assembleBAT_empty: "assembleBAT i line [] = Inl IndexOutOfRange"
  by (simp add: assembleBAT_def index_def bindP_def)

lemma assemblePWR_empty: "assemblePWR i line [] = Inl IndexOutOfRange"
  by (simp add: assemblePWR_def index_def bindP_def)

text \<open>
  C4. A battery line is read as a data line of the battery parser, and a power line as a
  data line of the power parser (a line that is not a data line is skipped before it is
  split, without a diagnostic). A line with fewer than 12 tokens yields no battery
  record, one with fewer than 19 no power record, and when it is a data line the only
  entry logged is \<open>SkippingInsufficientFields\<close> with the line number, the number of
  tokens and the trimmed line. The assembler runs only on a data line with at least 12
  (19) tokens, where every position up to 11 (18) is in range; so neither the loop body
  nor the batch parser panics on any input, while the assembler alone, on an empty token
  list, does.
\<close>

theorem C4_structural_skip_in_bounds:
  "(length (tokens l) < 12 \<longrightarrow>
      (\<exists>es. lineBAT i l = Inr (None, es)) \<and>
      (dataLineBAT l \<longrightarrow>
         lineBAT i l =
           Inr (None, [Log BAT SkippingInsufficientFields
                         [ArgInt (int i + 1), ArgInt (int (length (tokens l))),
                          ArgStr (TrimSpace l)]]))) \<and>
   (length (tokens l) < 19 \<longrightarrow>
      (\<exists>es. linePWR i l = Inr (None, es)) \<and>
      (dataLinePWR l \<longrightarrow>
         linePWR i l =
           Inr (None, [Log PWR SkippingInsufficientFields
                         [ArgInt (int i + 1), ArgInt (int (length (tokens l))),
                          ArgStr (TrimSpace l)]]))) \<and>
   (dataLineBAT l \<and> 12 \<le> length (tokens l) \<longrightarrow>
      lineBAT i l = assembleBAT i (TrimSpace l) (tokens l) \<and>
      (\<forall>k\<le>11. index (tokens l) k = Inr (tokens l ! k))) \<and>
   (dataLinePWR l \<and> 19 \<le> length (tokens l) \<longrightarrow>
      linePWR i l = assemblePWR i (TrimSpace l) (tokens l) \<and>
      (\<forall>k\<le>18. index (tokens l) k = Inr (tokens l ! k))) \<and>
   (\<forall>p. lineBAT i l \<noteq> Inl p) \<and> (\<forall>p. linePWR i l \<noteq> Inl p) \<and>
   (\<forall>p. ParseBAT ls \<noteq> Inl p) \<and> (\<forall>p. ParsePWR ls \<noteq> Inl p) \<and>
   assembleBAT i l [] = Inl IndexOutOfRange \<and> assemblePWR i l [] = Inl IndexOutOfRange"
proof (intro conjI impI allI; (elim conjE)?)
  assume n: "length (tokens l) < 12"
  show "\<exists>es. lineBAT i l = Inr (None, es)"
    using n by (cases "dataLineBAT l") (simp_all add: lineBAT_noise lineBAT_short)
  show "lineBAT i l =
           Inr (None, [Log BAT SkippingInsufficientFields
                         [ArgInt (int i + 1), ArgInt (int (length (tokens l))),
                          ArgStr (TrimSpace l)]])" if "dataLineBAT l"
    using that n by (rule lineBAT_short)
next
  assume n: "length (tokens l) < 19"
  show "\<exists>es. linePWR i l = Inr (None, es)"
    using n by (cases "dataLinePWR l") (simp_all add: linePWR_noise linePWR_short)
  show "linePWR i l =
           Inr (None, [Log PWR SkippingInsufficientFields
                         [ArgInt (int i + 1), ArgInt (int (length (tokens l))),
                          ArgStr (TrimSpace l)]])" if "dataLinePWR l"
    using that n by (rule linePWR_short)
next
  assume "dataLineBAT l" and "12 \<le> length (tokens l)"
  then show "lineBAT i l = assembleBAT i (TrimSpace l) (tokens l)" by (rule lineBAT_assemble)
next
  fix k :: nat
  assume "12 \<le> length (tokens l)" and "k \<le> 11"
  then show "index (tokens l) k = Inr (tokens l ! k)" by (simp add: index_def)
next
  assume "dataLinePWR l" and "19 \<le> length (tokens l)"
  then show "linePWR i l = assemblePWR i (TrimSpace l) (tokens l)" by (rule linePWR_assemble)
next
  fix k :: nat
  assume "19 \<le> length (tokens l)" and "k \<le> 18"
  then show "index (tokens l) k = Inr (tokens l ! k)" by (simp add: index_def)
next
  fix p show "lineBAT i l \<noteq> Inl p" using lineBAT_returns [of i l] by auto
next
  fix p show "linePWR i l \<noteq> Inl p" using linePWR_returns [of i l] by auto
next
  fix p show "ParseBAT ls \<noteq> Inl p"
    using loopBAT_returns [of 0 ls "[]" "[]"] by (auto simp: ParseBAT_def Let_def)
next
  fix p show "ParsePWR ls \<noteq> Inl p"
    using loopPWR_returns [of 0 ls "[]" "[]"] by (auto simp: ParsePWR_def Let_def)
next
  show "assembleBAT i l [] = Inl IndexOutOfRange" by (rule assembleBAT_empty)
  show "assemblePWR i l [] = Inl IndexOutOfRange" by (rule assemblePWR_empty)
qed


theorem C4_structural_skip_in_bounds_witness:
  "(length (tokens ''1 3750 0'') < 12 \<and> dataLineBAT ''1 3750 0'' \<and>
    lineBAT 2 ''1 3750 0'' =
      Inr (None, [Log BAT SkippingInsufficientFields [ArgInt 3, ArgInt 3, ArgStr ''1 3750 0'']])) \<and>
   (length (tokens ''4 1 2 '') < 19 \<and> dataLinePWR ''4 1 2 '' \<and>
    linePWR 0 ''4 1 2 '' =
      Inr (None, [Log PWR SkippingInsufficientFields [ArgInt 1, ArgInt 3, ArgStr ''4 1 2'']])) \<and>
   (dataLineBAT ''1 3750 0 301 Charge OK OK OK 85% 3450 mAH 0000'' \<and>
    12 \<le> length (tokens ''1 3750 0 301 Charge OK OK OK 85% 3450 mAH 0000'') \<and>
    index (tokens ''1 3750 0 301 Charge OK OK OK 85% 3450 mAH 0000'') 11 = Inr ''0000'') \<and>
   (dataLinePWR ''1 498 -13 220 200 210 33 34 Idle OK OK OK 93% 2024-01-01 10:00:00 OK OK 224 ok'' \<and>
    19 \<le> length (tokens ''1 498 -13 220 200 210 33 34 Idle OK OK OK 93% 2024-01-01 10:00:00 OK OK 224 ok'') \<and>
    index (tokens ''1 498 -13 220 200 210 33 34 Idle OK OK OK 93% 2024-01-01 10:00:00 OK OK 224 ok'') 18
      = Inr ''ok'')"
  (is "?A \<and> ?B \<and> ?C \<and> ?D")
proof -
  have a: ?A
  proof -
    define l where "l = ''1 3750 0''"
    have h: "length (tokens l) < 12" "dataLineBAT l" unfolding l_def by code_simp+
    have e: "length (tokens l) = 3" "TrimSpace l = ''1 3750 0''" unfolding l_def by code_simp+
    have "lineBAT 2 l =
            Inr (None, [Log BAT SkippingInsufficientFields
                          [ArgInt (int 2 + 1), ArgInt (int (length (tokens l))),
                           ArgStr (TrimSpace l)]])"
      using C4_structural_skip_in_bounds [where l = l and i = 2] h by blast
    then have "lineBAT 2 l =
            Inr (None, [Log BAT SkippingInsufficientFields
                          [ArgInt 3, ArgInt 3, ArgStr ''1 3750 0'']])"
      by (simp add: e)
    with h show ?thesis unfolding l_def by blast
  qed
  have b: ?B
  proof -
    define l where "l = ''4 1 2 ''"
    have h: "length (tokens l) < 19" "dataLinePWR l" unfolding l_def by code_simp+
    have e: "length (tokens l) = 3" "TrimSpace l = ''4 1 2''" unfolding l_def by code_simp+
    have "linePWR 0 l =
            Inr (None, [Log PWR SkippingInsufficientFields
                          [ArgInt (int 0 + 1), ArgInt (int (length (tokens l))),
                           ArgStr (TrimSpace l)]])"
      using C4_structural_skip_in_bounds [where l = l and i = 0] h by blast
    then have "linePWR 0 l =
            Inr (None, [Log PWR SkippingInsufficientFields
                          [ArgInt 1, ArgInt 3, ArgStr ''4 1 2'']])"
      by (simp add: e)
    with h show ?thesis unfolding l_def by blast
  qed
  have c: ?C
  proof -
    define l where "l = ''1 3750 0 301 Charge OK OK OK 85% 3450 mAH 0000''"
    have h: "dataLineBAT l" "12 \<le> length (tokens l)" unfolding l_def by code_simp+
    have e: "tokens l ! 11 = ''0000''" unfolding l_def by code_simp
    have "\<forall>k\<le>11. index (tokens l) k = Inr (tokens l ! k)"
      using C4_structural_skip_in_bounds [where l = l] h by blast
    then have "index (tokens l) 11 = Inr ''0000''" using e by simp
    with h show ?thesis unfolding l_def by blast
  qed
  have d: ?D
  proof -
    define l where
      "l = ''1 498 -13 220 200 210 33 34 Idle OK OK OK 93% 2024-01-01 10:00:00 OK OK 224 ok''"
    have h: "dataLinePWR l" "19 \<le> length (tokens l)" unfolding l_def by code_simp+
    have e: "tokens l ! 18 = ''ok''" unfolding l_def by code_simp
    have "\<forall>k\<le>18. index (tokens l) k = Inr (tokens l ! k)"
      using C4_structural_skip_in_bounds [where l = l] h by blast
    then have "index (tokens l) 18 = Inr ''ok''" using e by simp
    with h show ?thesis unfolding l_def by blast
  qed
  show ?thesis by (rule conjI [OF a conjI [OF b conjI [OF c d]]])
qed

section \<open>The state and the charge percentage of a power record\<close>

text \<open>
  C8. Whenever the loop body of \<open>ParsePWR\<close> yields a record for a line, the line has
  at least 19 tokens, the state of the record is the state decoder applied to token 8
  (so \<open>Idle\<close> gives 2), and the value that the percentage decoder returns for token 12
  is stored in the Coulomb field of the record (\<open>-1\<close> when that decoder fails).
\<close>

theorem C8_power_state_and_coulomb:
  "linePWR i l = Inr (Some st, es) \<longrightarrow>
     19 \<le> length (tokens l) \<and>
     pwrBaseState st = parseBaseState (tokens l ! 8) \<and>
     (tokens l ! 8 = ''Idle'' \<longrightarrow> pwrBaseState st = 2) \<and>
     (\<forall>v. parseSOC (tokens l ! 12) = Inr v \<longrightarrow> pwrCoulomb st = v) \<and>
     (isl (parseSOC (tokens l ! 12)) \<longrightarrow> pwrCoulomb st = - 1)"
proof
  assume line: "linePWR i l = Inr (Some st, es)"
  from linePWR_Some [OF line] have d: "dataLinePWR l" and n: "19 \<le> length (tokens l)"
    by simp_all
  from line have a: "assemblePWR i (TrimSpace l) (tokens l) = Inr (Some st, es)"
    by (simp add: linePWR_assemble [OF d n])
  from assemblePWR_Some [OF n a] assemblePWR_record [OF n, of i "TrimSpace l"] a
  have b: "pwrBaseState st = parseBaseState (tokens l ! 8)"
    and c: "pwrCoulomb st = (case parseSOC (tokens l ! 12) of Inl err \<Rightarrow> - 1 | Inr v \<Rightarrow> v)"
    by auto
  have "tokens l ! 8 = ''Idle'' \<longrightarrow> pwrBaseState st = 2"
    using b by (simp add: parseBaseState_def baseStateMap_def)
  moreover have "\<forall>v. parseSOC (tokens l ! 12) = Inr v \<longrightarrow> pwrCoulomb st = v"
    using c by simp
  moreover have "isl (parseSOC (tokens l ! 12)) \<longrightarrow> pwrCoulomb st = - 1"
    using c by (cases "parseSOC (tokens l ! 12)") simp_all
  ultimately show "19 \<le> length (tokens l) \<and>
     pwrBaseState st = parseBaseState (tokens l ! 8) \<and>
     (tokens l ! 8 = ''Idle'' \<longrightarrow> pwrBaseState st = 2) \<and>
     (\<forall>v. parseSOC (tokens l ! 12) = Inr v \<longrightarrow> pwrCoulomb st = v) \<and>
     (isl (parseSOC (tokens l ! 12)) \<longrightarrow> pwrCoulomb st = - 1)"
    using n b by blast
qed


theorem C8_power_state_and_coulomb_witness:
  "linePWR 0 ''1 498 -13 220 200 210 33 34 Idle OK OK OK 93% 2024-01-01 10:00:00 OK OK 224 ok'' =
     Inr (Some \<lparr>pwrID = 1, pwrVolt = 498, pwrCurr = - 13, pwrTemp = 220, pwrBaseState = 2,
                pwrVoltState = ''OK'', pwrCurrState = ''OK'', pwrTempState = ''OK'',
                pwrCoulomb = 93, BVState = ''OK'', BTState = ''OK'', MosTemp = ''224'',
                MTState = ''ok''\<rparr>, []) \<and>
   tokens ''1 498 -13 220 200 210 33 34 Idle OK OK OK 93% 2024-01-01 10:00:00 OK OK 224 ok'' ! 8
     = ''Idle'' \<and>
   parseSOC (tokens ''1 498 -13 220 200 210 33 34 Idle OK OK OK 93% 2024-01-01 10:00:00 OK OK 224 ok'' ! 12)
     = Inr 93 \<and>
   (\<exists>st es.
      linePWR 0 ''1 498 -13 220 200 210 33 34 Idle OK OK OK 93% 2024-01-01 10:00:00 OK OK 224 ok''
        = Inr (Some st, es) \<and>
      19 \<le> length (tokens ''1 498 -13 220 200 210 33 34 Idle OK OK OK 93% 2024-01-01 10:00:00 OK OK 224 ok'') \<and>
      pwrBaseState st = 2 \<and> pwrCoulomb st = 93)"
proof -
  define l where
    "l = ''1 498 -13 220 200 210 33 34 Idle OK OK OK 93% 2024-01-01 10:00:00 OK OK 224 ok''"
  define st where
    "st = \<lparr>pwrID = 1, pwrVolt = 498, pwrCurr = - 13, pwrTemp = 220, pwrBaseState = 2,
           pwrVoltState = ''OK'', pwrCurrState = ''OK'', pwrTempState = ''OK'',
           pwrCoulomb = 93, BVState = ''OK'', BTState = ''OK'', MosTemp = ''224'',
           MTState = ''ok''\<rparr>"
  have line: "linePWR 0 l = Inr (Some st, [])" unfolding l_def st_def by code_simp
  have e: "tokens l ! 8 = ''Idle''" "parseSOC (tokens l ! 12) = Inr 93"
    unfolding l_def by code_simp+
  have "19 \<le> length (tokens l) \<and> pwrBaseState st = 2 \<and> pwrCoulomb st = 93"
    using C8_power_state_and_coulomb [where l = l and i = 0 and st = st and es = "[]"] line e
    by blast
  with line have "\<exists>st es. linePWR 0 l = Inr (Some st, es) \<and> 19 \<le> length (tokens l) \<and>
      pwrBaseState st = 2 \<and> pwrCoulomb st = 93"
    by blast
  with line e show ?thesis unfolding l_def st_def by blast
qed

section \<open>The percentage decoder\<close>

lemma parseSOC_Atoi:
  "parseSOC s =
     (case Atoi (specStripPercent s) of
        Inl err \<Rightarrow> Inl (FailedToParse ''SOC'' (specStripPercent s) err)
      | Inr n \<Rightarrow> Inr (word_of_int n))"
  by (simp add: parseSOC_def TrimSuffix_percent Let_def)

lemma lineBAT_record:
  assumes "dataLineBAT l" and "12 \<le> length (tokens l)"
    and "\<not> (isl (parseInt (tokens l ! 0) ''BAT ID'') \<or> isl (parseInt (tokens l ! 1) ''BAT Volt'') \<or>
            isl (parseInt (tokens l ! 2) ''BAT Curr'') \<or> isl (parseInt (tokens l ! 3) ''BAT Temp''))"
  shows "\<exists>st es. lineBAT i l = Inr (Some st, es) \<and>
      SOC st = (case parseSOC (tokens l ! 8) of Inl err \<Rightarrow> - 1 | Inr v \<Rightarrow> v) \<and>
      (isl (parseSOC (tokens l ! 8)) \<or> (\<forall>a. Log BAT (WarningParsing FieldSOC) a \<notin> set es))"
proof -
  from assms(3) assembleBAT_record [OF assms(2), of i "TrimSpace l"]
  obtain st es where a: "assembleBAT i (TrimSpace l) (tokens l) = Inr (Some st, es)"
    and s: "SOC st = (case parseSOC (tokens l ! 8) of Inl err \<Rightarrow> - 1 | Inr v \<Rightarrow> v)"
    and e: "es = (case parseSOC (tokens l ! 8) of
              Inl err \<Rightarrow> [Log BAT (WarningParsing FieldSOC)
                            [ArgInt (ID st), ArgInt (int i + 1), ArgErr err, ArgStr (TrimSpace l)]]
            | Inr v \<Rightarrow> []) @
           (case parseCoulomb (tokens l ! 9) (tokens l ! 10) of
              Inl err \<Rightarrow> [Log BAT (WarningParsing FieldCoulomb)
                            [ArgInt (ID st), ArgInt (int i + 1), ArgErr err]]
            | Inr v \<Rightarrow> [])"
    by blast
  have "isl (parseSOC (tokens l ! 8)) \<or> (\<forall>a. Log BAT (WarningParsing FieldSOC) a \<notin> set es)"
    unfolding e
    by (cases "parseSOC (tokens l ! 8)"; cases "parseCoulomb (tokens l ! 9) (tokens l ! 10)")
      simp_all
  with a s show ?thesis by (auto simp: lineBAT_assemble [OF assms(1,2)])
qed

text \<open>
  C6. The percentage decoder \<open>parseSOC\<close> removes one trailing \<open>%\<close>, if there is
  one, and gives the rest to \<open>Atoi\<close>: it fails exactly when \<open>Atoi\<close> fails on the
  rest, and otherwise returns the integer narrowed to eight bits, which read as a
  signed value is \<open>(n + 128) mod 256 - 128\<close>, and \<open>n\<close> itself when \<open>n\<close> lies
  between \<open>-128\<close> and \<open>127\<close>. \<open>Atoi\<close> returns \<open>n\<close> exactly for a base-10 signed
  integer (an optional sign and one or more digits) of value \<open>n\<close> in the range of a
  64-bit \<open>int\<close>. So \<open>85%\<close> and \<open>85\<close> decode to 85, while \<open>abc\<close> fails, and so does
  \<open>85%%\<close>, of which only one \<open>%\<close> is removed. Where the SOC token of a battery data
  line fails to decode and the four critical tokens decode, the record is appended with
  SOC \<open>-1\<close>; the line with \<open>abc\<close> for its SOC gives that record and one warning.
\<close>

theorem C6_percentage_decoder:
  "(isl (parseSOC s) \<longleftrightarrow> isl (Atoi (specStripPercent s))) \<and>
   (\<forall>n. Atoi (specStripPercent s) = Inr n \<longrightarrow>
        parseSOC s = Inr (word_of_int n) \<and>
        sint (word_of_int n :: int8) = (n + 128) mod 256 - 128) \<and>
   (\<forall>n. Atoi (specStripPercent s) = Inr n \<and> - 128 \<le> n \<and> n \<le> 127 \<longrightarrow>
        (\<exists>v. parseSOC s = Inr v \<and> sint v = n)) \<and>
   (\<forall>n. Atoi s = Inr n \<longleftrightarrow>
        specSignedDecimal s = Some n \<and> - 9223372036854775808 \<le> n \<and> n \<le> 9223372036854775807) \<and>
   parseSOC ''85%'' = Inr 85 \<and> parseSOC ''85'' = Inr 85 \<and>
   parseSOC ''abc'' = Inl (FailedToParse ''SOC'' ''abc'' ErrSyntax) \<and>
   parseSOC ''85%%'' = Inl (FailedToParse ''SOC'' ''85%'' ErrSyntax) \<and>
   (dataLineBAT l \<and> 12 \<le> length (tokens l) \<and>
    \<not> (isl (parseInt (tokens l ! 0) ''BAT ID'') \<or> isl (parseInt (tokens l ! 1) ''BAT Volt'') \<or>
       isl (parseInt (tokens l ! 2) ''BAT Curr'') \<or> isl (parseInt (tokens l ! 3) ''BAT Temp'')) \<and>
    isl (parseSOC (tokens l ! 8)) \<longrightarrow>
      (\<exists>st es. lineBAT i l = Inr (Some st, es) \<and> SOC st = - 1 \<and>
               loopBAT i (l # rest) rs out = loopBAT (Suc i) rest (rs @ [st]) (out @ es))) \<and>
   ParseBAT [''1 3750 0 301 Charge Normal Normal Normal abc 3450 mAH 0000000000000000''] =
     Inr (([\<lparr>ID = 1, Volt = 3750, Curr = 0, Temp = 301, BaseState = 0,
              VoltState = ''Normal'', CurrState = ''Normal'', TempState = ''Normal'',
              SOC = - 1, Coulomb = 3450, BAL = ''0000000000000000''\<rparr>], None),
          [Log BAT (WarningParsing FieldSOC)
             [ArgInt 1, ArgInt 1, ArgErr (FailedToParse ''SOC'' ''abc'' ErrSyntax),
              ArgStr ''1 3750 0 301 Charge Normal Normal Normal abc 3450 mAH 0000000000000000'']])"
  (is "?A \<and> ?B \<and> ?C \<and> ?D \<and> ?E1 \<and> ?E2 \<and> ?E3 \<and> ?E4 \<and> ?F \<and> ?G")
proof -
  have a: ?A by (simp add: parseSOC_Atoi split: sum.splits)
  have b: ?B by (simp add: parseSOC_Atoi sint_int8)
  have c: ?C by (auto simp: parseSOC_Atoi sint_int8_small)
  have d: ?D using Atoi_signedDecimal [of s] by blast
  have e1: ?E1 by code_simp
  have e2: ?E2 by code_simp
  have e3: ?E3 by code_simp
  have e4: ?E4 by code_simp
  have f: ?F
  proof (intro impI, elim conjE)
    assume h: "dataLineBAT l" "12 \<le> length (tokens l)"
      "\<not> (isl (parseInt (tokens l ! 0) ''BAT ID'') \<or> isl (parseInt (tokens l ! 1) ''BAT Volt'') \<or>
         isl (parseInt (tokens l ! 2) ''BAT Curr'') \<or> isl (parseInt (tokens l ! 3) ''BAT Temp''))"
      and s: "isl (parseSOC (tokens l ! 8))"
    from lineBAT_record [OF h, of i] obtain st es where
      line: "lineBAT i l = Inr (Some st, es)"
      and soc: "SOC st = (case parseSOC (tokens l ! 8) of Inl err \<Rightarrow> - 1 | Inr v \<Rightarrow> v)"
      by blast
    from soc s have "SOC st = - 1" by (cases "parseSOC (tokens l ! 8)") simp_all
    with line loopBAT_keep [OF line] show "\<exists>st es. lineBAT i l = Inr (Some st, es) \<and> SOC st = - 1 \<and>
               loopBAT i (l # rest) rs out = loopBAT (Suc i) rest (rs @ [st]) (out @ es)"
      by blast
  qed
  have g: ?G by code_simp
  show ?thesis
    by (rule conjI [OF a conjI [OF b conjI [OF c conjI [OF d conjI [OF e1 conjI [OF e2
          conjI [OF e3 conjI [OF e4 conjI [OF f g]]]]]]]]])
qed

theorem C6_percentage_decoder_witness:
  "Atoi (specStripPercent ''85%'') = Inr 85 \<and> parseSOC ''85%'' = Inr (word_of_int 85) \<and>
   sint (word_of_int 85 :: int8) = 85 \<and>
   specSignedDecimal ''-7'' = Some (- 7) \<and> Atoi ''-7'' = Inr (- 7) \<and>
   dataLineBAT ''1 3750 0 301 Charge OK OK OK abc 3450 mAH 0000'' \<and>
   12 \<le> length (tokens ''1 3750 0 301 Charge OK OK OK abc 3450 mAH 0000'') \<and>
   isl (parseSOC (tokens ''1 3750 0 301 Charge OK OK OK abc 3450 mAH 0000'' ! 8)) \<and>
   (\<exists>st es. lineBAT 0 ''1 3750 0 301 Charge OK OK OK abc 3450 mAH 0000'' = Inr (Some st, es) \<and>
            SOC st = - 1)"
proof -
  define l where "l = ''1 3750 0 301 Charge OK OK OK abc 3450 mAH 0000''"
  have p: "Atoi (specStripPercent ''85%'') = Inr 85" by code_simp
  have q: "specSignedDecimal ''-7'' = Some (- 7)" by code_simp
  have h: "dataLineBAT l" "12 \<le> length (tokens l)" "isl (parseSOC (tokens l ! 8))"
    unfolding l_def by code_simp+
  have k: "\<not> (isl (parseInt (tokens l ! 0) ''BAT ID'') \<or> isl (parseInt (tokens l ! 1) ''BAT Volt'') \<or>
              isl (parseInt (tokens l ! 2) ''BAT Curr'') \<or> isl (parseInt (tokens l ! 3) ''BAT Temp''))"
    unfolding l_def by code_simp
  note c6 = C6_percentage_decoder [where s = "''85%''" and l = l and i = 0]
  have "parseSOC ''85%'' = Inr (word_of_int 85) \<and>
        sint (word_of_int 85 :: int8) = (85 + 128) mod 256 - 128"
    using c6 p by blast
  then have r1: "parseSOC ''85%'' = Inr (word_of_int 85)" "sint (word_of_int 85 :: int8) = 85"
    by simp_all
  have r2: "Atoi ''-7'' = Inr (- 7)"
    using C6_percentage_decoder [where s = "''-7''"] q by simp
  have r3: "\<exists>st es. lineBAT 0 l = Inr (Some st, es) \<and> SOC st = - 1"
    using c6 h k by blast
  from p q h r1 r2 r3 show ?thesis unfolding l_def by blast
qed

section \<open>Percentages beyond eight bits\<close>

lemma int8_minus_one_iff: "(word_of_int n :: int8) = - 1 \<longleftrightarrow> n mod 256 = 255"
proof -
  have "(- 1 :: int8) = word_of_int (- 1)" by simp
  then have "(word_of_int n :: int8) = - 1 \<longleftrightarrow>
             take_bit LENGTH(8) n = take_bit LENGTH(8) (- 1 :: int)"
    by (simp only: word_of_int_eq_iff)
  also have "take_bit LENGTH(8) n = n mod 256" by (simp add: take_bit_eq_mod)
  also have "take_bit LENGTH(8) (- 1 :: int) = 255" by (simp add: take_bit_eq_mod)
  finally show ?thesis .
qed

lemma Atoi_out_of_range:
  assumes "specSignedDecimal t = Some n"
    and "n < - 9223372036854775808 \<or> 9223372036854775807 < n"
  shows "isl (Atoi t)"
proof (cases "Atoi t")
  case (Inl e)
  then show ?thesis by simp
next
  case (Inr k)
  with Atoi_signedDecimal [of t k] assms show ?thesis by auto
qed

lemma Atoi_in_range:
  assumes "specSignedDecimal t = Some n"
    and "- 9223372036854775808 \<le> n" and "n \<le> 9223372036854775807"
  shows "Atoi t = Inr n"
  using Atoi_signedDecimal [of t n] assms by simp

lemma lineBAT_soc_warning:
  assumes "dataLineBAT l" and "12 \<le> length (tokens l)"
    and "\<not> (isl (parseInt (tokens l ! 0) ''BAT ID'') \<or> isl (parseInt (tokens l ! 1) ''BAT Volt'') \<or>
            isl (parseInt (tokens l ! 2) ''BAT Curr'') \<or> isl (parseInt (tokens l ! 3) ''BAT Temp''))"
    and "isl (parseSOC (tokens l ! 8))"
  shows "\<exists>st es. lineBAT i l = Inr (Some st, es) \<and> SOC st = - 1 \<and>
           (\<exists>a. Log BAT (WarningParsing FieldSOC) a \<in> set es)"
proof -
  from assms(3) assembleBAT_record [OF assms(2), of i "TrimSpace l"]
  obtain st es where a: "assembleBAT i (TrimSpace l) (tokens l) = Inr (Some st, es)"
    and s: "SOC st = (case parseSOC (tokens l ! 8) of Inl err \<Rightarrow> - 1 | Inr v \<Rightarrow> v)"
    and e: "es = (case parseSOC (tokens l ! 8) of
              Inl err \<Rightarrow> [Log BAT (WarningParsing FieldSOC)
                            [ArgInt (ID st), ArgInt (int i + 1), ArgErr err, ArgStr (TrimSpace l)]]
            | Inr v \<Rightarrow> []) @
           (case parseCoulomb (tokens l ! 9) (tokens l ! 10) of
              Inl err \<Rightarrow> [Log BAT (WarningParsing FieldCoulomb)
                            [ArgInt (ID st), ArgInt (int i + 1), ArgErr err]]
            | Inr v \<Rightarrow> [])"
    by blast
  from assms(4) obtain err where f: "parseSOC (tokens l ! 8) = Inl err"
    by (cases "parseSOC (tokens l ! 8)") simp_all
  from s f have "SOC st = - 1" by simp
  moreover from e f have "\<exists>a. Log BAT (WarningParsing FieldSOC) a \<in> set es" by auto
  ultimately show ?thesis using a by (auto simp: lineBAT_assemble [OF assms(1,2)])
qed

text \<open>
  C10, as stated, fails in two ways. The text \<open>9223372036854775808\<close> is a base-10
  integer outside \<open>-128 .. 127\<close>, but it is beyond the range of \<open>int\<close>: \<open>Atoi\<close>
  returns a range error and the percentage decoder fails. And \<open>255\<close> narrows to
  \<open>-1\<close>: the record assembled from a line with the SOC token \<open>255%\<close> carries
  \<open>-1\<close>, the very value of the sentinel, with nothing logged.
\<close>

theorem C10_counterexample:
  "specSignedDecimal (specStripPercent ''9223372036854775808%'') = Some 9223372036854775808 \<and>
   parseSOC ''9223372036854775808%'' =
     Inl (FailedToParse ''SOC'' ''9223372036854775808'' ErrRange) \<and>
   specSignedDecimal (specStripPercent ''255%'') = Some 255 \<and>
   ParseBAT [''1 3750 0 301 Charge Normal Normal Normal 255% 3450 mAH 0000000000000000''] =
     Inr (([\<lparr>ID = 1, Volt = 3750, Curr = 0, Temp = 301, BaseState = 0,
              VoltState = ''Normal'', CurrState = ''Normal'', TempState = ''Normal'',
              SOC = - 1, Coulomb = 3450, BAL = ''0000000000000000''\<rparr>], None), [])"
  by code_simp

text \<open>
  C10, amended. Let the token without its trailing \<open>%\<close> be a base-10 signed integer
  \<open>n\<close> outside \<open>-128 .. 127\<close>. If \<open>n\<close> is in the range of a 64-bit \<open>int\<close>, the
  percentage decoder does not fail: it returns \<open>n\<close> narrowed to eight bits, whose
  signed value \<open>(n + 128) mod 256 - 128\<close> lies in \<open>-128 .. 127\<close> and differs from
  \<open>n\<close>; \<open>200%\<close> gives \<open>-56\<close>. The record assembled from a battery data line with
  such a SOC token carries that value and no SOC warning is logged; the value is \<open>-1\<close>
  exactly when \<open>n mod 256 = 255\<close>, and then only the missing warning tells it from the
  sentinel. If \<open>n\<close> is beyond the range of \<open>int\<close>, the decoder fails, and the record
  carries the sentinel \<open>-1\<close> with a SOC warning in the log.
\<close>

theorem C10_percentage_wraps_in_int_range:
  "(specSignedDecimal (specStripPercent s) = Some n \<and>
    - 9223372036854775808 \<le> n \<and> n \<le> 9223372036854775807 \<and> (n < - 128 \<or> 127 < n) \<longrightarrow>
      parseSOC s = Inr (word_of_int n) \<and> \<not> isl (parseSOC s) \<and>
      sint (word_of_int n :: int8) = (n + 128) mod 256 - 128 \<and>
      - 128 \<le> sint (word_of_int n :: int8) \<and> sint (word_of_int n :: int8) \<le> 127 \<and>
      sint (word_of_int n :: int8) \<noteq> n \<and>
      ((word_of_int n :: int8) = - 1 \<longleftrightarrow> n mod 256 = 255)) \<and>
   (specSignedDecimal (specStripPercent s) = Some n \<and>
    (n < - 9223372036854775808 \<or> 9223372036854775807 < n) \<longrightarrow> isl (parseSOC s)) \<and>
   parseSOC ''200%'' = Inr (word_of_int 200) \<and> sint (word_of_int 200 :: int8) = - 56 \<and>
   (dataLineBAT l \<and> 12 \<le> length (tokens l) \<and>
    \<not> (isl (parseInt (tokens l ! 0) ''BAT ID'') \<or> isl (parseInt (tokens l ! 1) ''BAT Volt'') \<or>
       isl (parseInt (tokens l ! 2) ''BAT Curr'') \<or> isl (parseInt (tokens l ! 3) ''BAT Temp'')) \<and>
    specSignedDecimal (specStripPercent (tokens l ! 8)) = Some m \<and>
    - 9223372036854775808 \<le> m \<and> m \<le> 9223372036854775807 \<and> (m < - 128 \<or> 127 < m) \<longrightarrow>
      (\<exists>st es. lineBAT i l = Inr (Some st, es) \<and> SOC st = word_of_int m \<and>
               sint (SOC st) = (m + 128) mod 256 - 128 \<and>
               (SOC st = - 1 \<longleftrightarrow> m mod 256 = 255) \<and>
               (\<forall>a. Log BAT (WarningParsing FieldSOC) a \<notin> set es) \<and>
               loopBAT i (l # rest) rs out = loopBAT (Suc i) rest (rs @ [st]) (out @ es))) \<and>
   (dataLineBAT l \<and> 12 \<le> length (tokens l) \<and>
    \<not> (isl (parseInt (tokens l ! 0) ''BAT ID'') \<or> isl (parseInt (tokens l ! 1) ''BAT Volt'') \<or>
       isl (parseInt (tokens l ! 2) ''BAT Curr'') \<or> isl (parseInt (tokens l ! 3) ''BAT Temp'')) \<and>
    specSignedDecimal (specStripPercent (tokens l ! 8)) = Some m \<and>
    (m < - 9223372036854775808 \<or> 9223372036854775807 < m) \<longrightarrow>
      (\<exists>st es. lineBAT i l = Inr (Some st, es) \<and> SOC st = - 1 \<and>
               (\<exists>a. Log BAT (WarningParsing FieldSOC) a \<in> set es)))"
  (is "?A \<and> ?A' \<and> ?B1 \<and> ?B2 \<and> ?C \<and> ?C'")
proof -
  have a: ?A
  proof (intro impI, elim conjE)
    assume d: "specSignedDecimal (specStripPercent s) = Some n"
      and lo: "- 9223372036854775808 \<le> n" and hi: "n \<le> 9223372036854775807"
      and r: "n < - 128 \<or> 127 < n"
    from Atoi_in_range [OF d lo hi] have p: "Atoi (specStripPercent s) = Inr n" .
    have "- 128 \<le> (n + 128) mod 256 - 128 \<and> (n + 128) mod 256 - 128 \<le> 127"
      using pos_mod_sign [of 256 "n + 128"] pos_mod_bound [of 256 "n + 128"] by simp
    moreover from this r have "(n + 128) mod 256 - 128 \<noteq> n" by linarith
    ultimately show "parseSOC s = Inr (word_of_int n) \<and> \<not> isl (parseSOC s) \<and>
      sint (word_of_int n :: int8) = (n + 128) mod 256 - 128 \<and>
      - 128 \<le> sint (word_of_int n :: int8) \<and> sint (word_of_int n :: int8) \<le> 127 \<and>
      sint (word_of_int n :: int8) \<noteq> n \<and>
      ((word_of_int n :: int8) = - 1 \<longleftrightarrow> n mod 256 = 255)"
      using p int8_minus_one_iff [of n] by (simp add: parseSOC_Atoi sint_int8)
  qed
  have a': ?A'
  proof (intro impI, elim conjE)
    assume d: "specSignedDecimal (specStripPercent s) = Some n"
      and r: "n < - 9223372036854775808 \<or> 9223372036854775807 < n"
    from Atoi_out_of_range [OF d r] show "isl (parseSOC s)"
      by (cases "Atoi (specStripPercent s)") (simp_all add: parseSOC_Atoi)
  qed
  have b1: ?B1 by code_simp
  have b2: ?B2 by (simp add: sint_int8)
  have c: ?C
  proof (intro impI, elim conjE)
    assume h: "dataLineBAT l" "12 \<le> length (tokens l)"
      "\<not> (isl (parseInt (tokens l ! 0) ''BAT ID'') \<or> isl (parseInt (tokens l ! 1) ''BAT Volt'') \<or>
         isl (parseInt (tokens l ! 2) ''BAT Curr'') \<or> isl (parseInt (tokens l ! 3) ''BAT Temp''))"
      and d: "specSignedDecimal (specStripPercent (tokens l ! 8)) = Some m"
      and lo: "- 9223372036854775808 \<le> m" and hi: "m \<le> 9223372036854775807"
    from Atoi_in_range [OF d lo hi]
    have soc: "parseSOC (tokens l ! 8) = Inr (word_of_int m)" by (simp add: parseSOC_Atoi)
    from lineBAT_record [OF h, of i] soc obtain st es where
      line: "lineBAT i l = Inr (Some st, es)" and v: "SOC st = word_of_int m"
      and w: "\<forall>a. Log BAT (WarningParsing FieldSOC) a \<notin> set es"
      by auto
    from v have "sint (SOC st) = (m + 128) mod 256 - 128" by (simp add: sint_int8)
    moreover from v have "SOC st = - 1 \<longleftrightarrow> m mod 256 = 255" by (simp add: int8_minus_one_iff)
    ultimately
    show "\<exists>st es. lineBAT i l = Inr (Some st, es) \<and> SOC st = word_of_int m \<and>
               sint (SOC st) = (m + 128) mod 256 - 128 \<and>
               (SOC st = - 1 \<longleftrightarrow> m mod 256 = 255) \<and>
               (\<forall>a. Log BAT (WarningParsing FieldSOC) a \<notin> set es) \<and>
               loopBAT i (l # rest) rs out = loopBAT (Suc i) rest (rs @ [st]) (out @ es)"
      using line v w loopBAT_keep [OF line] by blast
  qed
  have c': ?C'
  proof (intro impI, elim conjE)
    assume h: "dataLineBAT l" "12 \<le> length (tokens l)"
      "\<not> (isl (parseInt (tokens l ! 0) ''BAT ID'') \<or> isl (parseInt (tokens l ! 1) ''BAT Volt'') \<or>
         isl (parseInt (tokens l ! 2) ''BAT Curr'') \<or> isl (parseInt (tokens l ! 3) ''BAT Temp''))"
      and d: "specSignedDecimal (specStripPercent (tokens l ! 8)) = Some m"
      and r: "m < - 9223372036854775808 \<or> 9223372036854775807 < m"
    from Atoi_out_of_range [OF d r] have "isl (parseSOC (tokens l ! 8))"
      by (cases "Atoi (specStripPercent (tokens l ! 8))") (simp_all add: parseSOC_Atoi)
    from lineBAT_soc_warning [OF h this, of i]
    show "\<exists>st es. lineBAT i l = Inr (Some st, es) \<and> SOC st = - 1 \<and>
               (\<exists>a. Log BAT (WarningParsing FieldSOC) a \<in> set es)" .
  qed
  show ?thesis by (rule conjI [OF a conjI [OF a' conjI [OF b1 conjI [OF b2 conjI [OF c c']]]]])
qed

theorem C10_percentage_wraps_in_int_range_witness:
  "specSignedDecimal (specStripPercent ''200%'') = Some 200 \<and> 127 < (200 :: int) \<and>
   parseSOC ''200%'' = Inr (word_of_int 200) \<and> sint (word_of_int 200 :: int8) = - 56 \<and>
   specSignedDecimal (specStripPercent ''9223372036854775808%'') = Some 9223372036854775808 \<and>
   isl (parseSOC ''9223372036854775808%'') \<and>
   dataLineBAT ''1 3750 0 301 Charge OK OK OK 300% 3450 mAH 0000'' \<and>
   12 \<le> length (tokens ''1 3750 0 301 Charge OK OK OK 300% 3450 mAH 0000'') \<and>
   specSignedDecimal (specStripPercent (tokens ''1 3750 0 301 Charge OK OK OK 300% 3450 mAH 0000'' ! 8))
     = Some 300 \<and>
   (\<exists>st es. lineBAT 0 ''1 3750 0 301 Charge OK OK OK 300% 3450 mAH 0000'' = Inr (Some st, es) \<and>
            sint (SOC st) = 44) \<and>
   dataLineBAT ''1 3750 0 301 Charge OK OK OK 255% 3450 mAH 0000'' \<and>
   12 \<le> length (tokens ''1 3750 0 301 Charge OK OK OK 255% 3450 mAH 0000'') \<and>
   specSignedDecimal (specStripPercent (tokens ''1 3750 0 301 Charge OK OK OK 255% 3450 mAH 0000'' ! 8))
     = Some 255 \<and>
   (\<exists>st es. lineBAT 0 ''1 3750 0 301 Charge OK OK OK 255% 3450 mAH 0000'' = Inr (Some st, es) \<and>
            SOC st = - 1) \<and>
   dataLineBAT ''1 3750 0 301 Charge OK OK OK 9223372036854775808% 3450 mAH 0000'' \<and>
   12 \<le> length (tokens ''1 3750 0 301 Charge OK OK OK 9223372036854775808% 3450 mAH 0000'') \<and>
   specSignedDecimal
     (specStripPercent (tokens ''1 3750 0 301 Charge OK OK OK 9223372036854775808% 3450 mAH 0000'' ! 8))
     = Some 9223372036854775808 \<and>
   (\<exists>st es. lineBAT 0 ''1 3750 0 301 Charge OK OK OK 9223372036854775808% 3450 mAH 0000''
              = Inr (Some st, es) \<and> SOC st = - 1 \<and>
            (\<exists>a. Log BAT (WarningParsing FieldSOC) a \<in> set es))"
  (is "?P1 \<and> ?P2 \<and> ?P3 \<and> ?P4 \<and> ?Q1 \<and> ?Q2 \<and> ?L1 \<and> ?L2 \<and> ?L3 \<and> ?L4 \<and>
       ?M1 \<and> ?M2 \<and> ?M3 \<and> ?M4 \<and> ?N1 \<and> ?N2 \<and> ?N3 \<and> ?N4")
proof -
  have p: ?P1 ?P2 by code_simp+
  have "parseSOC ''200%'' = Inr (word_of_int 200) \<and>
        sint (word_of_int 200 :: int8) = (200 + 128) mod 256 - 128"
    using C10_percentage_wraps_in_int_range [where s = "''200%''" and n = 200] p by simp
  then have p34: ?P3 ?P4 by simp_all
  have q1: ?Q1 by code_simp
  have q2: ?Q2
    using C10_percentage_wraps_in_int_range
            [where s = "''9223372036854775808%''" and n = 9223372036854775808] q1
    by simp
  have l: "?L1 \<and> ?L2 \<and> ?L3 \<and> ?L4"
  proof -
    define l where "l = ''1 3750 0 301 Charge OK OK OK 300% 3450 mAH 0000''"
    have h: "dataLineBAT l" "12 \<le> length (tokens l)"
      "specSignedDecimal (specStripPercent (tokens l ! 8)) = Some 300"
      unfolding l_def by code_simp+
    have k: "\<not> (isl (parseInt (tokens l ! 0) ''BAT ID'') \<or> isl (parseInt (tokens l ! 1) ''BAT Volt'') \<or>
                isl (parseInt (tokens l ! 2) ''BAT Curr'') \<or> isl (parseInt (tokens l ! 3) ''BAT Temp''))"
      unfolding l_def by code_simp
    have r: "- 9223372036854775808 \<le> (300 :: int)" "(300 :: int) \<le> 9223372036854775807"
      "(300 :: int) < - 128 \<or> 127 < (300 :: int)" by simp_all
    from C10_percentage_wraps_in_int_range [where l = l and i = 0 and m = 300] h k r
    obtain st es where "lineBAT 0 l = Inr (Some st, es)"
      and "sint (SOC st) = (300 + 128) mod 256 - 128"
      by blast
    then have "\<exists>st es. lineBAT 0 l = Inr (Some st, es) \<and> sint (SOC st) = 44" by auto
    with h show ?thesis unfolding l_def by blast
  qed
  have m: "?M1 \<and> ?M2 \<and> ?M3 \<and> ?M4"
  proof -
    define l where "l = ''1 3750 0 301 Charge OK OK OK 255% 3450 mAH 0000''"
    have h: "dataLineBAT l" "12 \<le> length (tokens l)"
      "specSignedDecimal (specStripPercent (tokens l ! 8)) = Some 255"
      unfolding l_def by code_simp+
    have k: "\<not> (isl (parseInt (tokens l ! 0) ''BAT ID'') \<or> isl (parseInt (tokens l ! 1) ''BAT Volt'') \<or>
                isl (parseInt (tokens l ! 2) ''BAT Curr'') \<or> isl (parseInt (tokens l ! 3) ''BAT Temp''))"
      unfolding l_def by code_simp
    have r: "- 9223372036854775808 \<le> (255 :: int)" "(255 :: int) \<le> 9223372036854775807"
      "(255 :: int) < - 128 \<or> 127 < (255 :: int)" by simp_all
    from C10_percentage_wraps_in_int_range [where l = l and i = 0 and m = 255] h k r
    obtain st es where "lineBAT 0 l = Inr (Some st, es)"
      and "SOC st = - 1 \<longleftrightarrow> (255 :: int) mod 256 = 255"
      by blast
    then have "\<exists>st es. lineBAT 0 l = Inr (Some st, es) \<and> SOC st = - 1" by auto
    with h show ?thesis unfolding l_def by blast
  qed
  have n: "?N1 \<and> ?N2 \<and> ?N3 \<and> ?N4"
  proof -
    define l where "l = ''1 3750 0 301 Charge OK OK OK 9223372036854775808% 3450 mAH 0000''"
    have h: "dataLineBAT l" "12 \<le> length (tokens l)"
      "specSignedDecimal (specStripPercent (tokens l ! 8)) = Some 9223372036854775808"
      unfolding l_def by code_simp+
    have k: "\<not> (isl (parseInt (tokens l ! 0) ''BAT ID'') \<or> isl (parseInt (tokens l ! 1) ''BAT Volt'') \<or>
                isl (parseInt (tokens l ! 2) ''BAT Curr'') \<or> isl (parseInt (tokens l ! 3) ''BAT Temp''))"
      unfolding l_def by code_simp
    have r: "(9223372036854775808 :: int) < - 9223372036854775808 \<or>
             9223372036854775807 < (9223372036854775808 :: int)" by simp
    have "\<exists>st es. lineBAT 0 l = Inr (Some st, es) \<and> SOC st = - 1 \<and>
            (\<exists>a. Log BAT (WarningParsing FieldSOC) a \<in> set es)"
      using C10_percentage_wraps_in_int_range
              [where l = l and i = 0 and m = 9223372036854775808] h k r
      by blast
    with h show ?thesis unfolding l_def by blast
  qed
  from p p34 q1 q2 l m n show ?thesis by simp
qed

section \<open>The warning for a batch without records\<close>

lemma foundDataLikeLineBAT_iff:
  "foundDataLikeLineBAT lines \<longleftrightarrow> (\<exists>l\<in>set lines. dataLineBAT l)"
  using MatchString_BAT_empty
  by (auto simp: foundDataLikeLineBAT_def dataLineBAT_def list_ex_iff Let_def)

lemma foundDataLikeLinePWR_iff:
  "foundDataLikeLinePWR lines \<longleftrightarrow> (\<exists>l\<in>set lines. dataLinePWR l)"
  using MatchString_PWR_empty
  by (auto simp: foundDataLikeLinePWR_def dataLinePWR_def list_ex_iff Let_def Contains_TrimSpace)

lemma count_list_snoc: "count_list (xs @ [x]) y = count_list xs y + (if x = y then 1 else 0)"
  by (induction xs) auto

lemma ParseBAT_warning:
  assumes "ParseBAT lines = Inr ((rs, err), out)"
  shows "count_list out (Log BAT WarningNoRecords []) =
           (if (\<exists>l\<in>set lines. dataLineBAT l) \<and> rs = [] then 1 else 0) \<and>
         (\<forall>k a. (k, a) \<noteq> (BAT, []) \<longrightarrow> Log k WarningNoRecords a \<notin> set out)"
proof -
  obtain rs0 out0 where loop: "loopBAT 0 lines [] [] = Inr (rs0, out0)"
    using loopBAT_returns by blast
  have no: "Log k WarningNoRecords a \<notin> set out0" for k a
    using loopBAT_log [OF loop] by simp
  then have c0: "count_list out0 (Log BAT WarningNoRecords []) = 0"
    by (simp add: count_list_0_iff)
  have ne: "\<exists>l\<in>set lines. dataLineBAT l \<Longrightarrow> lines \<noteq> []" by auto
  from assms loop have rs: "rs = rs0"
    and out: "out = (if rs0 = [] \<and> lines \<noteq> [] \<and> foundDataLikeLineBAT lines
                     then out0 @ [Log BAT WarningNoRecords []] else out0)"
    by (auto simp: ParseBAT_def Let_def split: if_splits)
  show ?thesis
    using ne no c0 unfolding out rs foundDataLikeLineBAT_iff
    by (auto simp: count_list_snoc)
qed

lemma ParsePWR_warning:
  assumes "ParsePWR lines = Inr ((rs, err), out)"
  shows "count_list out (Log PWR WarningNoRecords []) =
           (if (\<exists>l\<in>set lines. dataLinePWR l) \<and> rs = [] then 1 else 0) \<and>
         (\<forall>k a. (k, a) \<noteq> (PWR, []) \<longrightarrow> Log k WarningNoRecords a \<notin> set out)"
proof -
  obtain rs0 out0 where loop: "loopPWR 0 lines [] [] = Inr (rs0, out0)"
    using loopPWR_returns by blast
  have no: "Log k WarningNoRecords a \<notin> set out0" for k a
    using loopPWR_log [OF loop] by simp
  then have c0: "count_list out0 (Log PWR WarningNoRecords []) = 0"
    by (simp add: count_list_0_iff)
  have ne: "\<exists>l\<in>set lines. dataLinePWR l \<Longrightarrow> lines \<noteq> []" by auto
  from assms loop have rs: "rs = rs0"
    and out: "out = (if rs0 = [] \<and> lines \<noteq> [] \<and> foundDataLikeLinePWR lines
                     then out0 @ [Log PWR WarningNoRecords []] else out0)"
    by (auto simp: ParsePWR_def Let_def split: if_splits)
  show ?thesis
    using ne no c0 unfolding out rs foundDataLikeLinePWR_iff
    by (auto simp: count_list_snoc)
qed

text \<open>
  C9. In the log that a batch parser returns, the warning that no record was parsed
  stands once when the input has at least one data line and no record is returned, and
  not at all otherwise; no other entry of the log carries that message. For the empty
  input both parsers return no record, a nil error and an empty log.
\<close>

theorem C9_empty_batch_warning:
  "(ParseBAT lines = Inr ((rs, err), out) \<longrightarrow>
      count_list out (Log BAT WarningNoRecords []) =
        (if (\<exists>l\<in>set lines. dataLineBAT l) \<and> rs = [] then 1 else 0) \<and>
      (Log BAT WarningNoRecords [] \<in> set out \<longleftrightarrow> (\<exists>l\<in>set lines. dataLineBAT l) \<and> rs = []) \<and>
      (\<forall>k a. (k, a) \<noteq> (BAT, []) \<longrightarrow> Log k WarningNoRecords a \<notin> set out)) \<and>
   (ParsePWR lines = Inr ((rs', err'), out') \<longrightarrow>
      count_list out' (Log PWR WarningNoRecords []) =
        (if (\<exists>l\<in>set lines. dataLinePWR l) \<and> rs' = [] then 1 else 0) \<and>
      (Log PWR WarningNoRecords [] \<in> set out' \<longleftrightarrow> (\<exists>l\<in>set lines. dataLinePWR l) \<and> rs' = []) \<and>
      (\<forall>k a. (k, a) \<noteq> (PWR, []) \<longrightarrow> Log k WarningNoRecords a \<notin> set out')) \<and>
   ParseBAT [] = Inr (([], None), []) \<and> ParsePWR [] = Inr (([], None), [])"
proof (intro conjI impI)
  assume p: "ParseBAT lines = Inr ((rs, err), out)"
  note w = ParseBAT_warning [OF p]
  from w show "count_list out (Log BAT WarningNoRecords []) =
        (if (\<exists>l\<in>set lines. dataLineBAT l) \<and> rs = [] then 1 else 0)" by blast
  then show "Log BAT WarningNoRecords [] \<in> set out \<longleftrightarrow> (\<exists>l\<in>set lines. dataLineBAT l) \<and> rs = []"
    using count_list_0_iff [of out "Log BAT WarningNoRecords []"] by (auto split: if_splits)
  from w show "\<forall>k a. (k, a) \<noteq> (BAT, []) \<longrightarrow> Log k WarningNoRecords a \<notin> set out" by blast
next
  assume p: "ParsePWR lines = Inr ((rs', err'), out')"
  note w = ParsePWR_warning [OF p]
  from w show "count_list out' (Log PWR WarningNoRecords []) =
        (if (\<exists>l\<in>set lines. dataLinePWR l) \<and> rs' = [] then 1 else 0)" by blast
  then show "Log PWR WarningNoRecords [] \<in> set out' \<longleftrightarrow> (\<exists>l\<in>set lines. dataLinePWR l) \<and> rs' = []"
    using count_list_0_iff [of out' "Log PWR WarningNoRecords []"] by (auto split: if_splits)
  from w show "\<forall>k a. (k, a) \<noteq> (PWR, []) \<longrightarrow> Log k WarningNoRecords a \<notin> set out'" by blast
next
  show "ParseBAT [] = Inr (([], None), [])" by (simp add: ParseBAT_def)
  show "ParsePWR [] = Inr (([], None), [])" by (simp add: ParsePWR_def)
qed

theorem C9_empty_batch_warning_witness:
  "dataLineBAT ''1 3750 0'' \<and>
   ParseBAT [''Battery  Volt'', ''1 3750 0''] =
     Inr (([], None),
          [Log BAT SkippingInsufficientFields [ArgInt 2, ArgInt 3, ArgStr ''1 3750 0''],
           Log BAT WarningNoRecords []]) \<and>
   count_list
     [Log BAT SkippingInsufficientFields [ArgInt 2, ArgInt 3, ArgStr ''1 3750 0''],
      Log BAT WarningNoRecords []]
     (Log BAT WarningNoRecords []) = 1 \<and>
   dataLinePWR ''4 1 2'' \<and>
   ParsePWR [''4 1 2''] =
     Inr (([], None),
          [Log PWR SkippingInsufficientFields [ArgInt 1, ArgInt 3, ArgStr ''4 1 2''],
           Log PWR WarningNoRecords []]) \<and>
   count_list
     [Log PWR SkippingInsufficientFields [ArgInt 1, ArgInt 3, ArgStr ''4 1 2''],
      Log PWR WarningNoRecords []]
     (Log PWR WarningNoRecords []) = 1"
proof -
  define b where "b = ''1 3750 0''"
  define bs where "bs = [''Battery  Volt'', b]"
  define bout where
    "bout = [Log BAT SkippingInsufficientFields [ArgInt 2, ArgInt 3, ArgStr ''1 3750 0''],
             Log BAT WarningNoRecords []]"
  define p where "p = ''4 1 2''"
  define pout where
    "pout = [Log PWR SkippingInsufficientFields [ArgInt 1, ArgInt 3, ArgStr ''4 1 2''],
             Log PWR WarningNoRecords []]"
  have hb: "dataLineBAT b" "ParseBAT bs = Inr (([], None), bout)"
    unfolding b_def bs_def bout_def by code_simp+
  have hp: "dataLinePWR p" "ParsePWR [p] = Inr (([], None), pout)"
    unfolding p_def pout_def by code_simp+
  from hb(1) have eb: "\<exists>l\<in>set bs. dataLineBAT l" by (auto simp: bs_def)
  from hp(1) have ep: "\<exists>l\<in>set [p]. dataLinePWR l" by simp
  have cb: "count_list bout (Log BAT WarningNoRecords []) = 1"
    using C9_empty_batch_warning
            [where lines = bs and rs = "[]" and err = None and out = bout] hb(2) eb
    by simp
  have cp: "count_list pout (Log PWR WarningNoRecords []) = 1"
    using C9_empty_batch_warning
            [where lines = "[p]" and rs' = "[]" and err' = None and out' = pout] hp(2) ep
    by simp
  from hb hp cb cp show ?thesis unfolding b_def bs_def bout_def p_def pout_def by blast
qed

end
